theory Spec2Isabelle
  imports Main "HOL-Library.Sublist" "HOL-Library.AList"
begin

section \<open>Python values used by app.py\<close>

text \<open>
  Texts are \<open>string\<close>s, one \<open>char\<close> for one character of a Python \<open>str\<close>, so the
  model speaks about texts over the first 256 code points. Exceptions are values of
  \<open>error\<close>; a function that can raise returns \<open>error + 'a\<close> with \<open>Inl\<close> for the
  exception. \<open>Unmodelled\<close> is no Python exception: it marks the two places where the
  code goes on with a value this model has no type for (a \<open>\u\<close> escape beyond code
  point 255, a search query that is not a string).
\<close>

datatype error =
  IndexError | AttributeError | KeyError | TypeError | JSONDecodeError | APIError | Unmodelled

definition py_index :: "'a list \<Rightarrow> nat \<Rightarrow> error + 'a" where
  \<comment> \<open>\<open>xs[n]\<close> for a literal index \<open>n \<ge> 0\<close>\<close>
  "py_index xs n = (if n < length xs then Inr (xs ! n) else Inl IndexError)"

definition py_isspace :: "char \<Rightarrow> bool" where
  \<comment> \<open>the characters below 256 that \<open>str.strip()\<close> removes\<close>
  "py_isspace c =
     (let n = (of_char c :: nat)
      in (9 \<le> n \<and> n \<le> 13) \<or> (28 \<le> n \<and> n \<le> 32) \<or> n = 133 \<or> n = 160)"

definition strip :: "string \<Rightarrow> string" where
  "strip s = rev (dropWhile py_isspace (rev (dropWhile py_isspace s)))"

definition lower_char :: "char \<Rightarrow> char" where
  "lower_char c =
     (let n = (of_char c :: nat)
      in if (65 \<le> n \<and> n \<le> 90) \<or> (192 \<le> n \<and> n \<le> 222 \<and> n \<noteq> 215)
         then char_of (n + 32) else c)"

definition lower :: "string \<Rightarrow> string" where
  "lower s = map lower_char s"

fun py_in :: "string \<Rightarrow> string \<Rightarrow> bool" where
  \<comment> \<open>\<open>pat in s\<close> on strings\<close>
  "py_in pat [] = (pat = [])"
| "py_in pat (c # cs) = (prefix pat (c # cs) \<or> py_in pat cs)"

fun split :: "char \<Rightarrow> string \<Rightarrow> string list" where
  \<comment> \<open>\<open>s.split(d)\<close> for a separator of one character\<close>
  "split d [] = [[]]"
| "split d (c # cs) =
     (if c = d then [] # split d cs
      else (case split d cs of [] \<Rightarrow> [[c]] | l # ls \<Rightarrow> (c # l) # ls))"

definition replace :: "char \<Rightarrow> char \<Rightarrow> string \<Rightarrow> string" where
  \<comment> \<open>\<open>s.replace(a, b)\<close> for \<open>a\<close> and \<open>b\<close> of one character each\<close>
  "replace a b s = map (\<lambda>c. if c = a then b else c) s"

definition newline :: char where
  "newline = CHR 0x0A"

section \<open>json.loads\<close>

text \<open>
  \<open>json.loads\<close> is Python's library, not code of app.py. It is modelled in two
  passes that accept what its scanner accepts: \<open>lex\<close> cuts the text into tokens
  (white space is blank, tab, line feed and carriage return; strings are read in strict
  mode, with the escapes of JSON; the constants \<open>NaN\<close>, \<open>Infinity\<close> and
  \<open>-Infinity\<close> are numbers), and \<open>parse\<close> builds the value with a stack of the
  containers that are still open. Every failure of the library is a
  \<open>JSONDecodeError\<close>. An integer is an \<open>int\<close>; a number with a fraction or an
  exponent is kept as its text, since no claim reads its value. An object is the list of
  its members in the order of the first occurrence of each key, a later value for the
  same key replacing the earlier one, as in a Python \<open>dict\<close>. The limits of the
  interpreter (recursion depth, digits of an integer) are not modelled.
\<close>

datatype json =
    JNull
  | JBool bool
  | JInt int
  | JFloat string
  | JString string
  | JArray "json list"
  | JObject "(string \<times> json) list"

datatype token = TLBrace | TRBrace | TLBracket | TRBracket | TComma | TColon | TValue json

definition is_digit :: "char \<Rightarrow> bool" where
  "is_digit c = (48 \<le> (of_char c :: nat) \<and> (of_char c :: nat) \<le> 57)"

definition digit_val :: "char \<Rightarrow> nat" where
  "digit_val c = of_char c - 48"

definition nat_of_digits :: "string \<Rightarrow> nat" where
  "nat_of_digits ds = foldl (\<lambda>n d. 10 * n + digit_val d) 0 ds"

definition hex_val :: "char \<Rightarrow> nat option" where
  "hex_val c =
     (if is_digit c then Some (of_char c - 48)
      else if 97 \<le> (of_char c :: nat) \<and> (of_char c :: nat) \<le> 102 then Some (of_char c - 87)
      else if 65 \<le> (of_char c :: nat) \<and> (of_char c :: nat) \<le> 70 then Some (of_char c - 55)
      else None)"

definition hex4 :: "char \<Rightarrow> char \<Rightarrow> char \<Rightarrow> char \<Rightarrow> nat option" where
  "hex4 a b c d =
     (case (hex_val a, hex_val b, hex_val c, hex_val d) of
        (Some x, Some y, Some z, Some u) \<Rightarrow> Some (((x * 16 + y) * 16 + z) * 16 + u)
      | _ \<Rightarrow> None)"

definition backslash :: char where
  "backslash = CHR 0x5C"

definition dquote :: char where
  "dquote = CHR 0x22"

definition unescape :: "char \<Rightarrow> char option" where
  "unescape e =
     (if e = dquote then Some dquote
      else if e = backslash then Some backslash
      else if e = CHR ''/'' then Some CHR ''/''
      else if e = CHR ''b'' then Some CHR 0x08
      else if e = CHR ''f'' then Some CHR 0x0C
      else if e = CHR ''n'' then Some CHR 0x0A
      else if e = CHR ''r'' then Some CHR 0x0D
      else if e = CHR ''t'' then Some CHR 0x09
      else None)"

definition cons_char :: "char \<Rightarrow> error + string \<times> string \<Rightarrow> error + string \<times> string" where
  "cons_char c r = (case r of Inl e \<Rightarrow> Inl e | Inr (s, rest) \<Rightarrow> Inr (c # s, rest))"

fun scanstring :: "string \<Rightarrow> error + string \<times> string" where
  \<comment> \<open>the text after an opening quote: the string read, and what follows its closing quote\<close>
  "scanstring [] = Inl JSONDecodeError"
| "scanstring (c # cs) =
     (if c = dquote then Inr ([], cs)
      else if c = backslash then
        (case cs of
           [] \<Rightarrow> Inl JSONDecodeError
         | e # cs1 \<Rightarrow>
             if e = CHR ''u'' then
               (case cs1 of
                  h1 # h2 # h3 # h4 # cs2 \<Rightarrow>
                    (case hex4 h1 h2 h3 h4 of
                       None \<Rightarrow> Inl JSONDecodeError
                     | Some n \<Rightarrow>
                         if n < 256 then cons_char (char_of n) (scanstring cs2)
                         else Inl Unmodelled)
                | _ \<Rightarrow> Inl JSONDecodeError)
             else
               (case unescape e of
                  None \<Rightarrow> Inl JSONDecodeError
                | Some ch \<Rightarrow> cons_char ch (scanstring cs1)))
      else if (of_char c :: nat) < 32 then Inl JSONDecodeError
      else cons_char c (scanstring cs))"

definition scan_digits :: "string \<Rightarrow> (string \<times> string) option" where
  \<comment> \<open>one digit or more\<close>
  "scan_digits s =
     (if takeWhile is_digit s = [] then None
      else Some (takeWhile is_digit s, dropWhile is_digit s))"

definition scan_int :: "string \<Rightarrow> (string \<times> string) option" where
  \<comment> \<open>\<open>0|[1-9][0-9]*\<close>\<close>
  "scan_int s =
     (case s of
        [] \<Rightarrow> None
      | d # r \<Rightarrow>
          if d = CHR ''0'' then Some ([d], r)
          else if is_digit d then Some (d # takeWhile is_digit r, dropWhile is_digit r)
          else None)"

definition scan_frac :: "string \<Rightarrow> string \<times> string" where
  \<comment> \<open>\<open>(\.[0-9]+)?\<close>\<close>
  "scan_frac s =
     (case s of
        [] \<Rightarrow> ([], s)
      | p # r \<Rightarrow>
          if p = CHR ''.'' then
            (case scan_digits r of None \<Rightarrow> ([], s) | Some (ds, rest) \<Rightarrow> (p # ds, rest))
          else ([], s))"

definition scan_exp :: "string \<Rightarrow> string \<times> string" where
  \<comment> \<open>\<open>([eE][-+]?[0-9]+)?\<close>\<close>
  "scan_exp s =
     (case s of
        [] \<Rightarrow> ([], s)
      | e # r \<Rightarrow>
          if e = CHR ''e'' \<or> e = CHR ''E'' then
            (case r of
               [] \<Rightarrow> ([], s)
             | g # r1 \<Rightarrow>
                 if g = CHR ''-'' \<or> g = CHR ''+'' then
                   (case scan_digits r1 of
                      None \<Rightarrow> ([], s)
                    | Some (ds, rest) \<Rightarrow> (e # g # ds, rest))
                 else
                   (case scan_digits r of
                      None \<Rightarrow> ([], s)
                    | Some (ds, rest) \<Rightarrow> (e # ds, rest)))
          else ([], s))"

definition scan_number :: "string \<Rightarrow> (json \<times> string) option" where
  \<comment> \<open>the number at the start of the text, and what follows it\<close>
  "scan_number s =
     (let neg = (case s of [] \<Rightarrow> False | c # r \<Rightarrow> c = CHR ''-'');
          s1 = (if neg then tl s else s)
      in case scan_int s1 of
           None \<Rightarrow> None
         | Some (ds, s2) \<Rightarrow>
             (case scan_frac s2 of
                (fr, s3) \<Rightarrow>
                  (case scan_exp s3 of
                     (ex, s4) \<Rightarrow>
                       if fr = [] \<and> ex = [] then
                         Some (JInt (if neg then - int (nat_of_digits ds)
                                     else int (nat_of_digits ds)), s4)
                       else
                         Some (JFloat ((if neg then ''-'' else []) @ ds @ fr @ ex), s4))))"

definition scan_word :: "string \<Rightarrow> (json \<times> string) option" where
  \<comment> \<open>the constants, then the numbers\<close>
  "scan_word s =
     (if prefix ''null'' s then Some (JNull, drop 4 s)
      else if prefix ''true'' s then Some (JBool True, drop 4 s)
      else if prefix ''false'' s then Some (JBool False, drop 5 s)
      else if prefix ''NaN'' s then Some (JFloat ''NaN'', drop 3 s)
      else if prefix ''Infinity'' s then Some (JFloat ''Infinity'', drop 8 s)
      else if prefix ''-Infinity'' s then Some (JFloat ''-Infinity'', drop 9 s)
      else scan_number s)"

definition is_json_space :: "char \<Rightarrow> bool" where
  "is_json_space c =
     (c = CHR '' '' \<or> c = CHR 0x09 \<or> c = CHR 0x0A \<or> c = CHR 0x0D)"

definition punctuation :: "char \<Rightarrow> token option" where
  "punctuation c =
     (if c = CHR ''{'' then Some TLBrace
      else if c = CHR ''}'' then Some TRBrace
      else if c = CHR ''['' then Some TLBracket
      else if c = CHR '']'' then Some TRBracket
      else if c = CHR '','' then Some TComma
      else if c = CHR '':'' then Some TColon
      else None)"

definition cons_token :: "token \<Rightarrow> error + token list \<Rightarrow> error + token list" where
  "cons_token t r = (case r of Inl e \<Rightarrow> Inl e | Inr ts \<Rightarrow> Inr (t # ts))"

lemma cons_char_rest:
  "cons_char c r = Inr (s, rest) \<Longrightarrow> \<exists>s'. r = Inr (s', rest)"
  by (auto simp: cons_char_def split: sum.splits)

lemma scanstring_rest: "scanstring cs = Inr (s, rest) \<Longrightarrow> length rest < length cs"
proof (induction cs arbitrary: s rest rule: scanstring.induct)
  case 1
  then show ?case by simp
next
  case (2 c cs)
  show ?case
    using "2.prems" "2.IH"
    apply (simp split: if_splits list.splits option.splits)
    apply (auto dest!: cons_char_rest)
    by fastforce+
qed

lemma scan_digits_rest: "scan_digits s = Some (ds, rest) \<Longrightarrow> length rest \<le> length s"
  by (auto simp: scan_digits_def length_dropWhile_le split: if_splits)

lemma scan_int_rest: "scan_int s = Some (ds, rest) \<Longrightarrow> length rest < length s"
  by (auto simp: scan_int_def less_Suc_eq_le length_dropWhile_le split: list.splits if_splits)

lemma scan_frac_rest: "scan_frac s = (fr, rest) \<Longrightarrow> length rest \<le> length s"
  by (auto simp: scan_frac_def le_SucI dest!: scan_digits_rest split: list.splits if_splits option.splits)

lemma scan_exp_rest: "scan_exp s = (ex, rest) \<Longrightarrow> length rest \<le> length s"
  by (auto simp: scan_exp_def le_SucI dest!: scan_digits_rest split: list.splits if_splits option.splits)

lemma scan_number_rest: "scan_number s = Some (v, rest) \<Longrightarrow> length rest < length s"
  by (auto simp: scan_number_def Let_def split: option.splits prod.splits if_splits list.splits
      dest!: scan_int_rest scan_frac_rest scan_exp_rest)

lemma scan_word_rest: "scan_word s = Some (v, rest) \<Longrightarrow> length rest < length s"
  by (auto simp: scan_word_def prefix_def dest: scan_number_rest split: if_splits)

text \<open>The first pass. It ends: each token read leaves a shorter text.\<close>

function lex :: "string \<Rightarrow> error + token list" where
  "lex [] = Inr []"
| "lex (c # cs) =
     (if is_json_space c then lex cs
      else case punctuation c of
        Some t \<Rightarrow> cons_token t (lex cs)
      | None \<Rightarrow>
          if c = dquote then
            (case scanstring cs of
               Inl e \<Rightarrow> Inl e
             | Inr (s, rest) \<Rightarrow> cons_token (TValue (JString s)) (lex rest))
          else
            (case scan_word (c # cs) of
               None \<Rightarrow> Inl JSONDecodeError
             | Some (v, rest) \<Rightarrow> cons_token (TValue v) (lex rest)))"
  by pat_completeness auto
termination
  by (relation "measure length") (auto dest: scanstring_rest scan_word_rest)

text \<open>
  The second pass reads the tokens from left to right. \<open>expect\<close> is what may come
  next; the stack holds, for each container that is still open, the elements or members
  read so far (for an object also the key whose value is being read).
\<close>

datatype frame =
    ArrayFrame "json list"
  | ObjectFrame "(string \<times> json) list" "string option"

datatype expect = Value | ValueOrEnd | KeyOrEnd | Key | Colon | Separator | EndOfText json

fun put_value :: "json \<Rightarrow> frame list \<Rightarrow> (expect \<times> frame list) option" where
  "put_value v [] = Some (EndOfText v, [])"
| "put_value v (ArrayFrame acc # st) = Some (Separator, ArrayFrame (acc @ [v]) # st)"
| "put_value v (ObjectFrame acc (Some k) # st) =
     Some (Separator, ObjectFrame (AList.update k v acc) None # st)"
| "put_value v (ObjectFrame acc None # st) = None"

fun open_value :: "token \<Rightarrow> frame list \<Rightarrow> (expect \<times> frame list) option" where
  "open_value (TValue v) st = put_value v st"
| "open_value TLBracket st = Some (ValueOrEnd, ArrayFrame [] # st)"
| "open_value TLBrace st = Some (KeyOrEnd, ObjectFrame [] None # st)"
| "open_value t st = None"

fun close_array :: "frame list \<Rightarrow> (expect \<times> frame list) option" where
  "close_array (ArrayFrame acc # st) = put_value (JArray acc) st"
| "close_array st = None"

fun close_object :: "frame list \<Rightarrow> (expect \<times> frame list) option" where
  "close_object (ObjectFrame acc k # st) = put_value (JObject acc) st"
| "close_object st = None"

fun read_key :: "token \<Rightarrow> frame list \<Rightarrow> (expect \<times> frame list) option" where
  "read_key (TValue (JString k)) (ObjectFrame acc p # st) = Some (Colon, ObjectFrame acc (Some k) # st)"
| "read_key t st = None"

fun after_comma :: "frame list \<Rightarrow> (expect \<times> frame list) option" where
  "after_comma (ArrayFrame acc # st) = Some (Value, ArrayFrame acc # st)"
| "after_comma (ObjectFrame acc k # st) = Some (Key, ObjectFrame acc k # st)"
| "after_comma [] = None"

fun step :: "expect \<Rightarrow> frame list \<Rightarrow> token \<Rightarrow> (expect \<times> frame list) option" where
  "step Value st t = open_value t st"
| "step ValueOrEnd st t = (if t = TRBracket then close_array st else open_value t st)"
| "step KeyOrEnd st t = (if t = TRBrace then close_object st else read_key t st)"
| "step Key st t = read_key t st"
| "step Colon st t = (if t = TColon then Some (Value, st) else None)"
| "step Separator st t =
     (if t = TComma then after_comma st
      else if t = TRBracket then close_array st
      else if t = TRBrace then close_object st
      else None)"
| "step (EndOfText v) st t = None"

fun parse :: "expect \<Rightarrow> frame list \<Rightarrow> token list \<Rightarrow> json option" where
  "parse (EndOfText v) st [] = Some v"
| "parse ex st [] = None"
| "parse ex st (t # ts) =
     (case step ex st t of None \<Rightarrow> None | Some (ex', st') \<Rightarrow> parse ex' st' ts)"

definition json_loads :: "string \<Rightarrow> error + json" where
  "json_loads s =
     (case lex s of
        Inl e \<Rightarrow> Inl e
      | Inr ts \<Rightarrow>
          (case parse Value [] ts of None \<Rightarrow> Inl JSONDecodeError | Some v \<Rightarrow> Inr v))"

section \<open>The completion service\<close>

text \<open>
  A response of the service has an identifier and a list of output items. An output
  item is a message, with an identifier and a list of content blocks, or a web-search
  call, with an identifier and no \<open>content\<close> attribute. A content block is a text or a
  refusal; a refusal has no \<open>text\<close> attribute.
\<close>

datatype content_block = OutputText string | OutputRefusal string

datatype output_item = OutputMessage string "content_block list" | WebSearchCall string

record response =
  response_id :: string
  output_items :: "output_item list"

fun item_id :: "output_item \<Rightarrow> string" where
  "item_id (OutputMessage i c) = i"
| "item_id (WebSearchCall i) = i"

fun content :: "output_item \<Rightarrow> error + content_block list" where
  \<comment> \<open>\<open>item.content\<close>\<close>
  "content (OutputMessage i c) = Inr c"
| "content (WebSearchCall i) = Inl AttributeError"

fun text_of :: "content_block \<Rightarrow> error + string" where
  \<comment> \<open>\<open>block.text\<close>\<close>
  "text_of (OutputText t) = Inr t"
| "text_of (OutputRefusal r) = Inl AttributeError"

definition content0_text :: "output_item \<Rightarrow> error + string" where
  \<comment> \<open>\<open>item.content[0].text\<close>\<close>
  "content0_text it =
     (case content it of Inl e \<Rightarrow> Inl e
      | Inr c \<Rightarrow> (case py_index c 0 of Inl e \<Rightarrow> Inl e | Inr b \<Rightarrow> text_of b))"

definition output0_text :: "response \<Rightarrow> error + string" where
  \<comment> \<open>\<open>resp.output[0].content[0].text\<close>\<close>
  "output0_text r =
     (case py_index (output_items r) 0 of Inl e \<Rightarrow> Inl e | Inr it \<Rightarrow> content0_text it)"

text \<open>
  The collected result of one search: the dictionary with the keys \<open>query\<close>,
  \<open>resp_id\<close> and \<open>research_output\<close> that \<open>run_search\<close> builds.
\<close>

record result =
  query :: string
  resp_id :: string
  research_output :: string

text \<open>
  The service is the environment of the program. \<open>pending\<close> holds what it will
  answer to the calls still to come, one entry for each call in the order of the calls:
  a response, or a failure of the call. \<open>sent\<close> records the calls made so far. The
  prompt texts are not modelled: a request is recorded by its call site and the data
  it carries. Every theorem below holds for every \<open>pending\<close>, that is for every
  behaviour of the service.
\<close>

datatype reply = Reply response | Failure

datatype request =
    ClarifyRequest string
  | PlanRequest string "string list" "string list" string
  | SearchRequest string
  | EvaluateRequest json "result list"
  | SynthesizeRequest json "result list"
  | ReplanRequest json "result list" string

record world =
  pending :: "reply list"
  sent :: "request list"

definition create :: "request \<Rightarrow> world \<Rightarrow> (error + response) \<times> world" where
  \<comment> \<open>\<open>client.responses.create(...)\<close>\<close>
  "create rq w =
     (case pending w of
        [] \<Rightarrow> (Inl APIError, w\<lparr>sent := sent w @ [rq]\<rparr>)
      | Failure # rest \<Rightarrow> (Inl APIError, \<lparr>pending = rest, sent = sent w @ [rq]\<rparr>)
      | Reply r # rest \<Rightarrow> (Inr r, \<lparr>pending = rest, sent = sent w @ [rq]\<rparr>))"

section \<open>The six calls\<close>

definition questions_of :: "string \<Rightarrow> string list" where
  \<comment> \<open>lines 59 to 61 of app.py\<close>
  "questions_of t = map strip (filter (\<lambda>q. strip q \<noteq> []) (split newline t))"

definition get_clarifying_questions ::
  "string \<Rightarrow> world \<Rightarrow> (error + string list \<times> string) \<times> world" where
  "get_clarifying_questions topic w =
     (case create (ClarifyRequest topic) w of
        (Inl e, w') \<Rightarrow> (Inl e, w')
      | (Inr clarify, w') \<Rightarrow>
          (case output0_text clarify of
             Inl e \<Rightarrow> (Inl e, w')
           | Inr t \<Rightarrow> (Inr (questions_of t, response_id clarify), w')))"

definition get_goal_and_queries ::
  "string \<Rightarrow> string list \<Rightarrow> string list \<Rightarrow> string \<Rightarrow> world \<Rightarrow> (error + json \<times> string) \<times> world" where
  "get_goal_and_queries topic questions answers clarify_id w =
     (case create (PlanRequest topic questions answers clarify_id) w of
        (Inl e, w') \<Rightarrow> (Inl e, w')
      | (Inr goal_and_queries, w') \<Rightarrow>
          (case output0_text goal_and_queries of
             Inl e \<Rightarrow> (Inl e, w')
           | Inr t \<Rightarrow>
               (case json_loads t of
                  Inl e \<Rightarrow> (Inl e, w')
                | Inr plan \<Rightarrow> (Inr (plan, response_id goal_and_queries), w'))))"

definition search_result :: "string \<Rightarrow> response \<Rightarrow> error + result" where
  \<comment> \<open>lines 108 to 110: the dictionary built from the response\<close>
  "search_result q web_search =
     (case py_index (output_items web_search) 1 of
        Inl e \<Rightarrow> Inl e
      | Inr it \<Rightarrow>
          (case content0_text it of
             Inl e \<Rightarrow> Inl e
           | Inr t \<Rightarrow> Inr \<lparr>query = q, resp_id = item_id it, research_output = t\<rparr>))"

definition run_search :: "string \<Rightarrow> world \<Rightarrow> (error + result) \<times> world" where
  "run_search q w =
     (case create (SearchRequest q) w of
        (Inl e, w') \<Rightarrow> (Inl e, w')
      | (Inr web_search, w') \<Rightarrow> (search_result q web_search, w'))"

definition says_yes :: "string \<Rightarrow> bool" where
  \<comment> \<open>line 125: \<open>"yes" in text.lower()\<close>\<close>
  "says_yes t = py_in ''yes'' (lower t)"

definition evaluate :: "json \<Rightarrow> result list \<Rightarrow> world \<Rightarrow> (error + bool) \<times> world" where
  "evaluate goal coll w =
     (case create (EvaluateRequest goal coll) w of
        (Inl e, w') \<Rightarrow> (Inl e, w')
      | (Inr review, w') \<Rightarrow>
          (case output0_text review of
             Inl e \<Rightarrow> (Inl e, w')
           | Inr t \<Rightarrow> (Inr (says_yes t), w')))"

definition synthesize :: "json \<Rightarrow> result list \<Rightarrow> world \<Rightarrow> (error + string) \<times> world" where
  "synthesize goal coll w =
     (case create (SynthesizeRequest goal coll) w of
        (Inl e, w') \<Rightarrow> (Inl e, w')
      | (Inr report, w') \<Rightarrow> (output0_text report, w'))"

section \<open>The session and one run of main\<close>

text \<open>
  Streamlit runs \<open>main\<close> once for every interaction of the user. What a run reads
  from the page is \<open>inputs\<close>: the credential of the environment, the topic, the text of
  the answer fields by their index, and the two buttons. What lasts from one run to the
  next is \<open>st.session_state\<close>: a key that is not set is \<open>None\<close>. What a run shows is
  a list of \<open>ui\<close> elements; titles, rules, spinners and the progress bar are left out,
  and the message texts are given without their pictograms.
\<close>

record inputs =
  api_key :: "string option"
  topic_text :: string
  answer_text :: "nat \<Rightarrow> string"
  start_research :: bool
  start_new_research :: bool

record session =
  clarify_data :: "(string list \<times> string) option"
  last_topic :: "string option"
  goal_plan :: "json option"
  goal_queries_id :: "string option"
  last_answers :: "string list option"
  research_started :: "bool option"
  collected :: "result list option"
  current_queries :: "json list option"
  iteration_count :: "int option"

definition empty_session :: session where
  "empty_session =
     \<lparr>clarify_data = None, last_topic = None, goal_plan = None, goal_queries_id = None,
      last_answers = None, research_started = None, collected = None,
      current_queries = None, iteration_count = None\<rparr>"

datatype ui =
    UiError string
  | UiInfo string
  | UiWarning string
  | UiSuccess string
  | UiGoal json
  | UiQuery nat json
  | UiIteration int
  | UiSearchOutput string string
  | UiReport string
  | UiDownload string string
  | UiSummary nat int
  | UiResult nat string string

datatype outcome = Returned | Stopped | Rerun | Raised error

record state =
  session :: session
  world :: world
  shown :: "ui list"

definition display :: "ui \<Rightarrow> state \<Rightarrow> state" where
  "display u st = st\<lparr>shown := shown st @ [u]\<rparr>"

definition py_getitem :: "json \<Rightarrow> string \<Rightarrow> error + json" where
  \<comment> \<open>\<open>v[k]\<close> for a string \<open>k\<close>\<close>
  "py_getitem v k =
     (case v of
        JObject kvs \<Rightarrow> (case map_of kvs k of None \<Rightarrow> Inl KeyError | Some x \<Rightarrow> Inr x)
      | _ \<Rightarrow> Inl TypeError)"

definition py_iter :: "json \<Rightarrow> error + json list" where
  \<comment> \<open>what \<open>for x in v\<close> goes through\<close>
  "py_iter v =
     (case v of
        JArray xs \<Rightarrow> Inr xs
      | JString s \<Rightarrow> Inr (map (\<lambda>c. JString [c]) s)
      | JObject kvs \<Rightarrow> Inr (map (\<lambda>kv. JString (fst kv)) kvs)
      | _ \<Rightarrow> Inl TypeError)"

definition get_collected :: "session \<Rightarrow> result list" where
  \<comment> \<open>\<open>st.session_state.get('collected', [])\<close>\<close>
  "get_collected s = (case collected s of None \<Rightarrow> [] | Some c \<Rightarrow> c)"

definition get_current_queries :: "session \<Rightarrow> json \<Rightarrow> json" where
  \<comment> \<open>\<open>st.session_state.get('current_queries', queries)\<close>\<close>
  "get_current_queries s queries =
     (case current_queries s of None \<Rightarrow> queries | Some xs \<Rightarrow> JArray xs)"

definition get_iteration_count :: "session \<Rightarrow> int" where
  \<comment> \<open>\<open>st.session_state.get('iteration_count', 0)\<close>\<close>
  "get_iteration_count s = (case iteration_count s of None \<Rightarrow> 0 | Some k \<Rightarrow> k)"

definition get_research_started :: "session \<Rightarrow> bool" where
  \<comment> \<open>the truth value of \<open>st.session_state.get('research_started')\<close>\<close>
  "get_research_started s = (research_started s = Some True)"

definition preview :: "nat \<Rightarrow> string \<Rightarrow> string" where
  \<comment> \<open>\<open>s[:n] + "..." if len(s) > n else s\<close>\<close>
  "preview n s = (if length s > n then take n s @ ''...'' else s)"

definition clarify_step :: "string \<Rightarrow> state \<Rightarrow> (error + string list \<times> string) \<times> state" where
  \<comment> \<open>lines 164 to 170\<close>
  "clarify_step topic st =
     (case clarify_data (session st) of
        Some cd \<Rightarrow>
          if last_topic (session st) \<noteq> Some topic then
            (case get_clarifying_questions topic (world st) of
               (Inl e, w') \<Rightarrow> (Inl e, st\<lparr>world := w'\<rparr>)
             | (Inr qi, w') \<Rightarrow>
                 (Inr qi, st\<lparr>world := w',
                    session := (session st)\<lparr>clarify_data := Some qi, last_topic := Some topic\<rparr>\<rparr>))
          else (Inr cd, st)
      | None \<Rightarrow>
          (case get_clarifying_questions topic (world st) of
             (Inl e, w') \<Rightarrow> (Inl e, st\<lparr>world := w'\<rparr>)
           | (Inr qi, w') \<Rightarrow>
               (Inr qi, st\<lparr>world := w',
                  session := (session st)\<lparr>clarify_data := Some qi, last_topic := Some topic\<rparr>\<rparr>)))"

definition get_answers :: "inputs \<Rightarrow> string list \<Rightarrow> string list" where
  \<comment> \<open>one text field for each question, in their order\<close>
  "get_answers inp questions = map (answer_text inp) [0..<length questions]"

definition new_plan ::
  "string \<Rightarrow> string list \<Rightarrow> string list \<Rightarrow> string \<Rightarrow> state \<Rightarrow> (error + json \<times> string) \<times> state" where
  \<comment> \<open>lines 180 to 184\<close>
  "new_plan topic questions answers clarify_id st =
     (case get_goal_and_queries topic questions answers clarify_id (world st) of
        (Inl e, w') \<Rightarrow> (Inl e, st\<lparr>world := w'\<rparr>)
      | (Inr (plan, gid), w') \<Rightarrow>
          (Inr (plan, gid), st\<lparr>world := w',
             session := (session st)\<lparr>goal_plan := Some plan, goal_queries_id := Some gid,
                                      last_answers := Some answers\<rparr>\<rparr>))"

definition plan_step ::
  "string \<Rightarrow> string list \<Rightarrow> string list \<Rightarrow> string \<Rightarrow> state \<Rightarrow> (error + json \<times> string) \<times> state" where
  \<comment> \<open>lines 179 to 187\<close>
  "plan_step topic questions answers clarify_id st =
     (case goal_plan (session st) of
        Some plan \<Rightarrow>
          if last_answers (session st) \<noteq> Some answers
          then new_plan topic questions answers clarify_id st
          else (case goal_queries_id (session st) of
                  None \<Rightarrow> (Inl KeyError, st)
                | Some gid \<Rightarrow> (Inr (plan, gid), st))
      | None \<Rightarrow> new_plan topic questions answers clarify_id st)"

definition show_plan :: "json \<Rightarrow> state \<Rightarrow> (error + json \<times> json) \<times> state" where
  \<comment> \<open>lines 189 to 199\<close>
  "show_plan plan st =
     (case py_getitem plan ''goal'' of
        Inl e \<Rightarrow> (Inl e, st)
      | Inr goal \<Rightarrow>
          (case py_getitem plan ''queries'' of
             Inl e \<Rightarrow> (Inl e, st)
           | Inr queries \<Rightarrow>
               (case py_iter queries of
                  Inl e \<Rightarrow> (Inl e, display (UiGoal goal) st)
                | Inr qs \<Rightarrow>
                    (Inr (goal, queries),
                     st\<lparr>shown := shown st @ UiGoal goal #
                          map (\<lambda>(i, q). UiQuery (Suc i) q) (enumerate 0 qs)\<rparr>))))"

text \<open>
  The search loop of lines 220 to 233. \<open>collected\<close> is a Python list that the loop
  appends to. A query that is not a string is where the model stops.
\<close>

fun search_loop ::
  "json list \<Rightarrow> result list \<Rightarrow> world \<Rightarrow> ui list \<Rightarrow> (error + unit) \<times> result list \<times> world \<times> ui list" where
  "search_loop [] coll w sh = (Inr (), coll, w, sh)"
| "search_loop (q # qs) coll w sh =
     (case q of
        JString qt \<Rightarrow>
          if \<not> list_ex (\<lambda>item. query item = qt) coll then
            (case run_search qt w of
               (Inl e, w') \<Rightarrow> (Inl e, coll, w', sh)
             | (Inr result, w') \<Rightarrow>
                 search_loop qs (coll @ [result]) w'
                   (sh @ [UiSearchOutput qt (preview 300 (research_output result))]))
          else search_loop qs coll w sh
      | _ \<Rightarrow> (Inl Unmodelled, coll, w, sh))"

definition max_iterations :: int where
  "max_iterations = 5"

definition search_phase :: "json \<Rightarrow> int \<Rightarrow> state \<Rightarrow> (error + result list) \<times> state" where
  \<comment> \<open>lines 214 to 237. When the loop raises, the results appended so far stay in the
      session only if the list was the session's own (line 206 returned it, not a new
      list).\<close>
  "search_phase cq n st =
     (let st1 = display (UiIteration (n + 1)) st;
          coll = get_collected (session st1)
      in case py_iter cq of
           Inl e \<Rightarrow> (Inl e, st1)
         | Inr qs \<Rightarrow>
             (case search_loop qs coll (world st1) (shown st1) of
                (Inl e, coll', w', sh') \<Rightarrow>
                  (Inl e,
                   \<lparr>session = (session st1)\<lparr>collected :=
                        (case collected (session st1) of None \<Rightarrow> None | Some c \<Rightarrow> Some coll')\<rparr>,
                    world = w', shown = sh'\<rparr>)
              | (Inr u, coll', w', sh') \<Rightarrow>
                  (Inr coll',
                   \<lparr>session = (session st1)\<lparr>collected := Some coll',
                        iteration_count := Some (n + 1)\<rparr>,
                    world = w', shown = sh'\<rparr>)))"

definition file_name :: "string \<Rightarrow> string" where
  \<comment> \<open>line 259\<close>
  "file_name topic = ''research_report_'' @ replace CHR '' '' CHR ''_'' topic @ ''.md''"

definition report_phase :: "inputs \<Rightarrow> string \<Rightarrow> json \<Rightarrow> result list \<Rightarrow> state \<Rightarrow> outcome \<times> state" where
  \<comment> \<open>lines 245 to 272\<close>
  "report_phase inp topic goal coll st =
     (let st1 = display (UiSuccess ''Research goal satisfied! Generating final report...'') st
      in case synthesize goal coll (world st1) of
           (Inl e, w') \<Rightarrow> (Raised e, st1\<lparr>world := w'\<rparr>)
         | (Inr final_report, w') \<Rightarrow>
             (let st2 = st1\<lparr>world := w',
                         shown := shown st1 @
                           [UiReport final_report, UiDownload (file_name topic) final_report],
                         session := (session st1)\<lparr>research_started := Some False,
                                      collected := Some [], iteration_count := Some 0\<rparr>\<rparr>
              in if start_new_research inp then (Rerun, st2\<lparr>session := empty_session\<rparr>)
                 else (Returned, st2)))"

definition replan_phase :: "json \<Rightarrow> result list \<Rightarrow> string \<Rightarrow> state \<Rightarrow> outcome \<times> state" where
  \<comment> \<open>lines 275 to 299\<close>
  "replan_phase goal coll gq_id st =
     (let st1 = display (UiWarning ''More research needed. Generating additional queries...'') st
      in case create (ReplanRequest goal coll gq_id) (world st1) of
           (Inl e, w') \<Rightarrow> (Raised e, st1\<lparr>world := w'\<rparr>)
         | (Inr more_searches, w') \<Rightarrow>
             (let st2 = st1\<lparr>world := w'\<rparr>
              in case output0_text more_searches of
                   Inl e \<Rightarrow> (Raised e, st2)
                 | Inr new_queries_text \<Rightarrow>
                     (case json_loads new_queries_text of
                        Inl e \<Rightarrow>
                          if e = JSONDecodeError
                          then (Returned,
                                display (UiError ''Could not parse additional queries as JSON.'') st2)
                          else (Raised e, st2)
                      | Inr new_queries \<Rightarrow>
                          (case new_queries of
                             JArray xs \<Rightarrow>
                               (Returned,
                                display (UiInfo ''New search queries generated. Click 'Start Research' again.'')
                                  (st2\<lparr>session := (session st2)\<lparr>current_queries := Some xs\<rparr>\<rparr>))
                           | _ \<Rightarrow>
                               (Returned,
                                display (UiError ''Could not parse additional queries.'') st2)))))"

definition summary_phase :: "result list \<Rightarrow> int \<Rightarrow> state \<Rightarrow> outcome \<times> state" where
  \<comment> \<open>lines 301 to 312\<close>
  "summary_phase coll n st =
     (let st1 = display (UiWarning ''Reached maximum iteration limit for safety.'') st
      in if coll \<noteq> [] then
           (Returned,
            st1\<lparr>shown := shown st1 @ UiSummary (length coll) n #
                   map (\<lambda>(i, r). UiResult (Suc i) (query r) (preview 500 (research_output r)))
                     (enumerate 0 coll)\<rparr>)
         else (Returned, st1))"

definition research :: "inputs \<Rightarrow> string \<Rightarrow> json \<Rightarrow> json \<Rightarrow> string \<Rightarrow> state \<Rightarrow> outcome \<times> state" where
  \<comment> \<open>lines 203 to 312\<close>
  "research inp topic goal queries gq_id st0 =
     (let st = st0\<lparr>session := (session st0)\<lparr>research_started := Some True\<rparr>\<rparr>;
          coll = get_collected (session st);
          cq = get_current_queries (session st) queries;
          n = get_iteration_count (session st)
      in if n < max_iterations then
           (case search_phase cq n st of
              (Inl e, st1) \<Rightarrow> (Raised e, st1)
            | (Inr coll1, st1) \<Rightarrow>
                (case evaluate goal coll1 (world st1) of
                   (Inl e, w') \<Rightarrow> (Raised e, st1\<lparr>world := w'\<rparr>)
                 | (Inr goal_satisfied, w') \<Rightarrow>
                     if goal_satisfied
                     then report_phase inp topic goal coll1 (st1\<lparr>world := w'\<rparr>)
                     else replan_phase goal coll1 gq_id (st1\<lparr>world := w'\<rparr>)))
         else summary_phase coll n st)"

definition main :: "inputs \<Rightarrow> state \<Rightarrow> outcome \<times> state" where
  "main inp st =
     (if api_key inp = None \<or> api_key inp = Some [] then
        (Stopped,
         display (UiError ''OPENAI_API_KEY not set. Please set it in your environment or .env file.'') st)
      else
        (let topic = strip (topic_text inp)
         in if topic = [] then
              (Returned, display (UiInfo ''Enter a research topic to begin.'') st)
            else
              (case clarify_step topic st of
                 (Inl e, st1) \<Rightarrow> (Raised e, st1)
               | (Inr (questions, clarify_id), st1) \<Rightarrow>
                   (let answers = get_answers inp questions
                    in if \<not> list_all (\<lambda>answer. strip answer \<noteq> []) answers then
                         (Returned,
                          display (UiInfo ''Please answer all clarifying questions to continue.'') st1)
                       else
                         (case plan_step topic questions answers clarify_id st1 of
                            (Inl e, st2) \<Rightarrow> (Raised e, st2)
                          | (Inr (plan, gq_id), st2) \<Rightarrow>
                              (case show_plan plan st2 of
                                 (Inl e, st3) \<Rightarrow> (Raised e, st3)
                               | (Inr (goal, queries), st3) \<Rightarrow>
                                   if start_research inp \<or> get_research_started (session st3)
                                   then research inp topic goal queries gq_id st3
                                   else (Returned, st3)))))))"

text \<open>
  \<open>join_lines ls\<close> is the text that consists of the lines \<open>ls\<close> separated by line
  feeds: the reply the claim speaks about.
\<close>

fun join_lines :: "string list \<Rightarrow> string" where
  "join_lines [] = []"
| "join_lines [l] = l"
| "join_lines (l # ls) = l @ newline # join_lines ls"

section \<open>Sessions\<close>

text \<open>
  A session starts with an empty \<open>st.session_state\<close>. Every interaction runs
  \<open>main\<close> once, on the inputs of the page and with what the service will answer
  during that run; the page is drawn anew by every run.
\<close>

definition initial :: state where
  "initial = \<lparr>session = empty_session, world = \<lparr>pending = [], sent = []\<rparr>, shown = []\<rparr>"

fun runs :: "(inputs \<times> reply list) list \<Rightarrow> state \<Rightarrow> state" where
  "runs [] st = st"
| "runs ((inp, replies) # rest) st =
     runs rest (snd (main inp (st\<lparr>world := (world st)\<lparr>pending := replies\<rparr>, shown := []\<rparr>)))"

text \<open>What every run keeps true of the session.\<close>

definition session_ok :: "session \<Rightarrow> bool" where
  "session_ok s = (distinct (map query (get_collected s))
                   \<and> 0 \<le> get_iteration_count s \<and> get_iteration_count s \<le> max_iterations)"

text \<open>
  Example data: a reply that is one message with one text, the reply to a search (a
  web-search call, then the message), a user who answers every question, a first run
  that plans, searches and re-plans, and later runs that only evaluate and re-plan.
\<close>

definition text_reply :: "string \<Rightarrow> string \<Rightarrow> reply" where
  "text_reply i t = Reply \<lparr>response_id = i, output_items = [OutputMessage i [OutputText t]]\<rparr>"

definition search_reply :: "string \<Rightarrow> string \<Rightarrow> reply" where
  "search_reply i t =
     Reply \<lparr>response_id = i, output_items = [WebSearchCall ''ws'', OutputMessage i [OutputText t]]\<rparr>"

definition example_inputs :: inputs where
  "example_inputs =
     \<lparr>api_key = Some ''key'', topic_text = ''cats'', answer_text = (\<lambda>i. ''pets''),
      start_research = True, start_new_research = False\<rparr>"

definition first_run :: "inputs \<times> reply list" where
  "first_run =
     (example_inputs,
      [text_reply ''r1'' ''1. Why cats?'',
       text_reply ''r2'' ''{\"goal\":\"G\",\"queries\":[\"a\"]}'',
       search_reply ''m1'' ''Cats purr.'',
       text_reply ''r3'' ''No'',
       text_reply ''r4'' ''[\"a\"]''])"

definition later_run :: "inputs \<times> reply list" where
  "later_run = (example_inputs, [text_reply ''r5'' ''No'', text_reply ''r6'' ''[\"a\"]''])"

definition five_passes :: "(inputs \<times> reply list) list" where
  "five_passes = [first_run, later_run, later_run, later_run, later_run]"



definition searching :: state where
  "searching =
     \<lparr>session = empty_session,
      world = \<lparr>pending = [search_reply ''m1'' ''Cats purr.'', text_reply ''r3'' ''Yes.'',
                         text_reply ''r4'' ''Cats: a report''],
               sent = []\<rparr>,
      shown = []\<rparr>"

text \<open>
  The text of a plan reply in the format that the prompt asks for: an object with the
  goal and the list of queries, each a string written between double quotes.
  \<open>plain\<close> are the characters that stand for themselves in such a string.
  \<open>elements\<close> are the tokens of the list of queries.
\<close>

definition plain :: "char \<Rightarrow> bool" where
  "plain c = (32 \<le> (of_char c :: nat) \<and> c \<noteq> dquote \<and> c \<noteq> backslash)"

definition json_string :: "string \<Rightarrow> string" where
  "json_string s = dquote # s @ [dquote]"

fun commas :: "string list \<Rightarrow> string" where
  "commas [] = []"
| "commas [x] = x"
| "commas (x # xs) = x @ CHR '','' # commas xs"

definition plan_text :: "string \<Rightarrow> string list \<Rightarrow> string" where
  "plan_text g qs =
     CHR ''{'' # json_string ''goal'' @ CHR '':'' # json_string g @ CHR '','' #
     json_string ''queries'' @ CHR '':'' # CHR ''['' # commas (map json_string qs) @ '']}''"

fun elements :: "string list \<Rightarrow> token list" where
  "elements [] = []"
| "elements [q] = [TValue (JString q)]"
| "elements (q # qs) = TValue (JString q) # TComma # elements qs"

section \<open>Properties\<close>

subsection \<open>Helper lemmas\<close>

lemma py_in_iff: "py_in pat s \<longleftrightarrow> (\<exists>ps ss. s = ps @ pat @ ss)"
proof (induction s)
  case Nil
  then show ?case by auto
next
  case (Cons c cs)
  show ?case
  proof
    assume "py_in pat (c # cs)"
    then consider "prefix pat (c # cs)" | "py_in pat cs" by auto
    then show "\<exists>ps ss. c # cs = ps @ pat @ ss"
    proof cases
      case 1
      then obtain ss where "c # cs = pat @ ss" by (auto simp: prefix_def)
      then have "c # cs = [] @ pat @ ss" by simp
      then show ?thesis by blast
    next
      case 2
      with Cons.IH obtain ps ss where "cs = ps @ pat @ ss" by blast
      then have "c # cs = (c # ps) @ pat @ ss" by simp
      then show ?thesis by blast
    qed
  next
    assume "\<exists>ps ss. c # cs = ps @ pat @ ss"
    then obtain ps ss where eq: "c # cs = ps @ pat @ ss" by blast
    show "py_in pat (c # cs)"
    proof (cases ps)
      case Nil
      with eq have "prefix pat (c # cs)" by (simp add: prefix_def)
      then show ?thesis by simp
    next
      case (Cons p ps')
      with eq have "cs = ps' @ pat @ ss" by simp
      with Cons.IH have "py_in pat cs" by blast
      then show ?thesis by simp
    qed
  qed
qed

lemma create_reply:
  "pending w = Reply r # rest \<Longrightarrow> create rq w = (Inr r, \<lparr>pending = rest, sent = sent w @ [rq]\<rparr>)"
  by (simp add: create_def)

lemma split_no_separator: "d \<notin> set l \<Longrightarrow> split d l = [l]"
  by (induction l) auto

lemma split_line: "d \<notin> set l \<Longrightarrow> split d (l @ d # t) = l # split d t"
  by (induction l) auto

lemma split_join_lines:
  "\<forall>l\<in>set ls. newline \<notin> set l \<Longrightarrow> ls \<noteq> [] \<Longrightarrow> split newline (join_lines ls) = ls"
proof (induction ls rule: join_lines.induct)
  case 1
  then show ?case by simp
next
  case (2 l)
  then show ?case by (simp add: split_no_separator)
next
  case (3 l v va)
  then show ?case by (simp add: split_line)
qed

lemma questions_of_join_lines:
  assumes "\<forall>l\<in>set ls. newline \<notin> set l"
  shows "questions_of (join_lines ls) = map strip (filter (\<lambda>q. strip q \<noteq> []) ls)"
proof (cases "ls = []")
  case True
  then show ?thesis by (simp add: questions_of_def strip_def)
next
  case False
  with assms show ?thesis by (simp add: questions_of_def split_join_lines)
qed

lemma search_result_cases:
  "search_result q r =
     (if length (output_items r) < 2 then Inl IndexError
      else case output_items r ! 1 of
             WebSearchCall i \<Rightarrow> Inl AttributeError
           | OutputMessage i [] \<Rightarrow> Inl IndexError
           | OutputMessage i (OutputRefusal x # bs) \<Rightarrow> Inl AttributeError
           | OutputMessage i (OutputText t # bs) \<Rightarrow>
               Inr \<lparr>query = q, resp_id = i, research_output = t\<rparr>)"
  by (auto simp: search_result_def py_index_def content0_text_def
      split: output_item.splits list.splits content_block.splits)

lemma run_search_reply:
  "pending w = Reply r # rest \<Longrightarrow>
   run_search q w = (search_result q r, \<lparr>pending = rest, sent = sent w @ [SearchRequest q]\<rparr>)"
  by (simp add: run_search_def create_reply)

lemma run_search_query:
  "run_search q w = (Inr res, w') \<Longrightarrow> query res = q"
  by (auto simp: run_search_def search_result_def split: prod.splits sum.splits)

lemma get_goal_and_queries_reply:
  assumes "pending w = Reply r # rest" and "output0_text r = Inr t"
  shows "get_goal_and_queries topic questions answers cid w =
           ((case json_loads t of Inl e \<Rightarrow> Inl e | Inr plan \<Rightarrow> Inr (plan, response_id r)),
            \<lparr>pending = rest, sent = sent w @ [PlanRequest topic questions answers cid]\<rparr>)"
  using assms by (simp add: get_goal_and_queries_def create_reply split: sum.splits)



lemma research_satisfied:
  assumes "get_iteration_count (session st0) < max_iterations"
    and "search_phase (get_current_queries (session st0) queries) (get_iteration_count (session st0))
           (st0\<lparr>session := (session st0)\<lparr>research_started := Some True\<rparr>\<rparr>) = (Inr coll1, st1)"
    and "evaluate goal coll1 (world st1) = (Inr True, w1)"
  shows "research inp topic goal queries gid st0 = report_phase inp topic goal coll1 (st1\<lparr>world := w1\<rparr>)"
  using assms
  by (simp add: research_def Let_def get_current_queries_def get_iteration_count_def)

lemma report_phase_done:
  assumes "synthesize goal coll (world st) = (Inr final_report, w')"
  shows "report_phase inp topic goal coll st =
     (if start_new_research inp then Rerun else Returned,
      \<lparr>session = (if start_new_research inp then empty_session
                   else (session st)\<lparr>research_started := Some False, collected := Some [],
                                       iteration_count := Some 0\<rparr>),
       world = w',
       shown = shown st @ [UiSuccess ''Research goal satisfied! Generating final report...'',
                           UiReport final_report, UiDownload (file_name topic) final_report]\<rparr>)"
  using assms by (simp add: report_phase_def Let_def display_def)

lemma search_loop_appends:
  "search_loop qs coll w sh = (r, coll', w', sh') \<Longrightarrow> prefix coll coll'"
proof (induction qs arbitrary: coll w sh)
  case Nil
  then show ?case by simp
next
  case (Cons q qs)
  show ?case
  proof (cases q)
    case (JString qt)
    show ?thesis
    proof (cases "list_ex (\<lambda>item. query item = qt) coll")
      case True
      with Cons JString show ?thesis by simp
    next
      case False
      obtain x w1 where rs: "run_search qt w = (x, w1)" by (cases "run_search qt w")
      show ?thesis
      proof (cases x)
        case (Inl e)
        with Cons.prems JString False rs show ?thesis by simp
      next
        case (Inr res)
        with Cons.prems JString False rs
        have "search_loop qs (coll @ [res]) w1
                (sh @ [UiSearchOutput qt (preview 300 (research_output res))]) = (r, coll', w', sh')"
          by simp
        then have "prefix (coll @ [res]) coll'" by (rule Cons.IH)
        then show ?thesis by (rule append_prefixD)
      qed
    qed
  qed (use Cons.prems in simp_all)
qed

lemma search_loop_distinct:
  "distinct (map query coll) \<Longrightarrow> search_loop qs coll w sh = (r, coll', w', sh')
   \<Longrightarrow> distinct (map query coll')"
proof (induction qs arbitrary: coll w sh)
  case Nil
  then show ?case by simp
next
  case (Cons q qs)
  show ?case
  proof (cases q)
    case (JString qt)
    show ?thesis
    proof (cases "list_ex (\<lambda>item. query item = qt) coll")
      case True
      with Cons JString show ?thesis by simp
    next
      case False
      obtain x w1 where rs: "run_search qt w = (x, w1)" by (cases "run_search qt w")
      show ?thesis
      proof (cases x)
        case (Inl e)
        with Cons.prems JString False rs show ?thesis by simp
      next
        case (Inr res)
        with rs have "query res = qt" by (simp add: run_search_query)
        with False Cons.prems(1) have d: "distinct (map query (coll @ [res]))"
          by (auto simp: list_ex_iff)
        from Cons.prems JString False rs Inr
        have "search_loop qs (coll @ [res]) w1
                (sh @ [UiSearchOutput qt (preview 300 (research_output res))]) = (r, coll', w', sh')"
          by simp
        with d show ?thesis by (rule Cons.IH)
      qed
    qed
  qed (use Cons.prems in simp_all)
qed

lemma search_loop_skip:
  "list_ex (\<lambda>item. query item = q) coll \<Longrightarrow>
   search_loop (JString q # qs) coll w sh = search_loop qs coll w sh"
  by simp

lemma search_loop_sent:
  "search_loop qs coll w sh = (Inr u, coll', w', sh') \<Longrightarrow>
   sent w' = sent w @ map (\<lambda>res. SearchRequest (query res)) (drop (length coll) coll')"
proof (induction qs arbitrary: coll w sh)
  case Nil
  then show ?case by simp
next
  case (Cons q qs)
  show ?case
  proof (cases q)
    case (JString qt)
    show ?thesis
    proof (cases "list_ex (\<lambda>item. query item = qt) coll")
      case True
      with Cons JString show ?thesis by simp
    next
      case False
      obtain x w1 where rs: "run_search qt w = (x, w1)" by (cases "run_search qt w")
      show ?thesis
      proof (cases x)
        case (Inl e)
        with Cons.prems JString False rs show ?thesis by simp
      next
        case (Inr res)
        from rs Inr have q: "query res = qt" by (simp add: run_search_query)
        from rs Inr have w1: "sent w1 = sent w @ [SearchRequest qt]"
          by (auto simp: run_search_def create_def split: list.splits reply.splits)
        from Cons.prems JString False rs Inr
        have sl: "search_loop qs (coll @ [res]) w1
                (sh @ [UiSearchOutput qt (preview 300 (research_output res))]) = (Inr u, coll', w', sh')"
          by simp
        from search_loop_appends [OF sl] obtain new where new: "coll' = (coll @ [res]) @ new"
          by (auto simp: prefix_def)
        from Cons.IH [OF sl] have "sent w' = sent w1 @
            map (\<lambda>res. SearchRequest (query res)) (drop (length (coll @ [res])) coll')" .
        with w1 q new show ?thesis by simp
      qed
    qed
  qed (use Cons.prems in simp_all)
qed

lemma search_phase_ok:
  assumes "session_ok (session st)" and "n = get_iteration_count (session st)"
    and "n < max_iterations" and "search_phase cq n st = (r, st1)"
  shows "session_ok (session st1)"
    and "r = Inr coll1 \<Longrightarrow> get_collected (session st1) = coll1"
proof -
  let ?st = "display (UiIteration (n + 1)) st"
  have s: "session ?st = session st" by (simp add: display_def)
  show "session_ok (session st1)"
  proof (cases "py_iter cq")
    case (Inl e)
    with assms(4) have "st1 = ?st" by (simp add: search_phase_def Let_def)
    with assms(1) s show ?thesis by simp
  next
    case (Inr qs)
    obtain x coll' w' sh' where
      sl: "search_loop qs (get_collected (session st)) (world ?st) (shown ?st) = (x, coll', w', sh')"
      by (metis prod_cases4)
    from assms(1) have "distinct (map query (get_collected (session st)))"
      by (simp add: session_ok_def)
    from search_loop_distinct [OF this sl] have d: "distinct (map query coll')" .
    show ?thesis
    proof (cases x)
      case (Inl e)
      with assms(4) Inr sl s have "session st1 = (session st)\<lparr>collected :=
                        (case collected (session st) of None \<Rightarrow> None | Some c \<Rightarrow> Some coll')\<rparr>"
        by (auto simp: search_phase_def Let_def)
      with assms(1) d show ?thesis
        by (auto simp: session_ok_def get_collected_def get_iteration_count_def split: option.splits)
    next
      case (Inr u)
      with assms(4) \<open>py_iter cq = Inr qs\<close> sl s
      have "session st1 = (session st)\<lparr>collected := Some coll', iteration_count := Some (n + 1)\<rparr>"
        by (auto simp: search_phase_def Let_def)
      with assms(1,2,3) d show ?thesis
        by (auto simp: session_ok_def get_collected_def get_iteration_count_def)
    qed
  qed
  show "r = Inr coll1 \<Longrightarrow> get_collected (session st1) = coll1"
    using assms(4)
    by (auto simp: search_phase_def Let_def get_collected_def split: sum.splits prod.splits)
qed

lemma session_ok_fields:
  "collected s' = collected s \<Longrightarrow> iteration_count s' = iteration_count s
   \<Longrightarrow> session_ok s \<Longrightarrow> session_ok s'"
  by (simp add: session_ok_def get_collected_def get_iteration_count_def)

lemma report_phase_ok:
  "session_ok (session st) \<Longrightarrow> report_phase inp topic goal coll st = (out, st')
   \<Longrightarrow> session_ok (session st')"
  by (auto simp: report_phase_def Let_def display_def session_ok_def get_collected_def
      get_iteration_count_def empty_session_def max_iterations_def
      split: prod.splits sum.splits if_splits)

lemma replan_phase_keeps:
  "replan_phase goal coll gid st = (out, st') \<Longrightarrow>
   collected (session st') = collected (session st)
   \<and> iteration_count (session st') = iteration_count (session st)"
  by (auto simp: replan_phase_def Let_def display_def
      split: prod.splits sum.splits if_splits json.splits)

lemma summary_phase_keeps: "summary_phase coll n st = (out, st') \<Longrightarrow> session st' = session st"
  by (auto simp: summary_phase_def Let_def display_def split: if_splits)

lemma research_ok:
  assumes "session_ok (session st0)" and "research inp topic goal queries gid st0 = (out, st')"
  shows "session_ok (session st')"
proof -
  let ?st = "st0\<lparr>session := (session st0)\<lparr>research_started := Some True\<rparr>\<rparr>"
  let ?n = "get_iteration_count (session ?st)"
  let ?cq = "get_current_queries (session ?st) queries"
  have ok: "session_ok (session ?st)"
    using assms(1) by (simp add: session_ok_def get_collected_def get_iteration_count_def)
  show ?thesis
  proof (cases "?n < max_iterations")
    case False
    with assms(2) have "summary_phase (get_collected (session ?st)) ?n ?st = (out, st')"
      by (simp add: research_def Let_def)
    then have "session st' = session ?st" by (rule summary_phase_keeps)
    with ok show ?thesis by simp
  next
    case True
    obtain r st1 where sp: "search_phase ?cq ?n ?st = (r, st1)"
      by (cases "search_phase ?cq ?n ?st")
    from search_phase_ok(1) [OF ok refl True sp] have ok1: "session_ok (session st1)" .
    show ?thesis
    proof (cases r)
      case (Inl e)
      with assms(2) True sp have "st' = st1" by (simp add: research_def Let_def)
      with ok1 show ?thesis by simp
    next
      case (Inr coll1)
      obtain x w1 where ev: "evaluate goal coll1 (world st1) = (x, w1)"
        by (cases "evaluate goal coll1 (world st1)")
      show ?thesis
      proof (cases x)
        case (Inl e)
        with assms(2) True sp Inr ev have "st' = st1\<lparr>world := w1\<rparr>"
          by (simp add: research_def Let_def)
        with ok1 show ?thesis by simp
      next
        case (Inr sat)
        show ?thesis
        proof (cases sat)
          case True
          with assms(2) \<open>?n < max_iterations\<close> sp \<open>r = Inr coll1\<close> ev Inr
          have "report_phase inp topic goal coll1 (st1\<lparr>world := w1\<rparr>) = (out, st')"
            by (simp add: research_def Let_def)
          moreover have "session_ok (session (st1\<lparr>world := w1\<rparr>))" using ok1 by simp
          ultimately show ?thesis by (rule report_phase_ok [rotated])
        next
          case False
          with assms(2) \<open>?n < max_iterations\<close> sp \<open>r = Inr coll1\<close> ev Inr
          have "replan_phase goal coll1 gid (st1\<lparr>world := w1\<rparr>) = (out, st')"
            by (simp add: research_def Let_def)
          from replan_phase_keeps [OF this] ok1 show ?thesis
            by (auto intro: session_ok_fields)
        qed
      qed
    qed
  qed
qed

lemma clarify_step_keeps:
  "clarify_step topic st = (r, st') \<Longrightarrow>
   collected (session st') = collected (session st)
   \<and> iteration_count (session st') = iteration_count (session st)"
  by (auto simp: clarify_step_def split: option.splits if_splits prod.splits sum.splits)

lemma plan_step_keeps:
  "plan_step topic questions answers cid st = (r, st') \<Longrightarrow>
   collected (session st') = collected (session st)
   \<and> iteration_count (session st') = iteration_count (session st)"
  by (auto simp: plan_step_def new_plan_def split: option.splits if_splits prod.splits sum.splits)

lemma show_plan_keeps: "show_plan plan st = (r, st') \<Longrightarrow> session st' = session st"
  by (auto simp: show_plan_def display_def split: sum.splits)

lemma main_with_topic:
  assumes "api_key inp = Some k" and "k \<noteq> []" and "strip (topic_text inp) \<noteq> []"
  shows "main inp st =
     (case clarify_step (strip (topic_text inp)) st of
        (Inl e, st1) \<Rightarrow> (Raised e, st1)
      | (Inr (questions, clarify_id), st1) \<Rightarrow>
          (let answers = get_answers inp questions
           in if \<not> list_all (\<lambda>answer. strip answer \<noteq> []) answers then
                (Returned,
                 display (UiInfo ''Please answer all clarifying questions to continue.'') st1)
              else
                (case plan_step (strip (topic_text inp)) questions answers clarify_id st1 of
                   (Inl e, st2) \<Rightarrow> (Raised e, st2)
                 | (Inr (plan, gq_id), st2) \<Rightarrow>
                     (case show_plan plan st2 of
                        (Inl e, st3) \<Rightarrow> (Raised e, st3)
                      | (Inr (goal, queries), st3) \<Rightarrow>
                          if start_research inp \<or> get_research_started (session st3)
                          then research inp (strip (topic_text inp)) goal queries gq_id st3
                          else (Returned, st3)))))"
  using assms by (simp add: main_def Let_def)

lemma main_ok:
  assumes "session_ok (session st)" and "main inp st = (out, st')"
  shows "session_ok (session st')"
proof (cases "api_key inp = None \<or> api_key inp = Some [] \<or> strip (topic_text inp) = []")
  case True
  then consider "api_key inp = None \<or> api_key inp = Some []"
    | "\<not> (api_key inp = None \<or> api_key inp = Some [])" "strip (topic_text inp) = []"
    by blast
  then have "session st' = session st"
  proof cases
    case 1
    then have "main inp st = (Stopped,
         display (UiError ''OPENAI_API_KEY not set. Please set it in your environment or .env file.'') st)"
      unfolding main_def by (rule if_P)
    with assms(2) show ?thesis by (auto simp: display_def)
  next
    case 2
    then have "main inp st = (Returned, display (UiInfo ''Enter a research topic to begin.'') st)"
      by (simp add: main_def Let_def)
    with assms(2) show ?thesis by (auto simp: display_def)
  qed
  with assms(1) show ?thesis by (simp add: Let_def)
next
  case False
  then obtain k where k: "api_key inp = Some k" "k \<noteq> []" "strip (topic_text inp) \<noteq> []"
    by (cases "api_key inp") auto
  note m = assms(2) [unfolded main_with_topic [OF k]]
  let ?topic = "strip (topic_text inp)"
  obtain r1 st1 where c: "clarify_step ?topic st = (r1, st1)" by (cases "clarify_step ?topic st")
  from clarify_step_keeps [OF c] assms(1) have ok1: "session_ok (session st1)"
    by (auto intro: session_ok_fields)
  show ?thesis
  proof (cases r1)
    case (Inl e)
    with m c have "st' = st1" by (simp add: Let_def)
    with ok1 show ?thesis by (simp add: Let_def)
  next
    case (Inr qc)
    obtain questions cid where qc: "qc = (questions, cid)" by (cases qc)
    let ?answers = "get_answers inp questions"
    show ?thesis
    proof (cases "list_all (\<lambda>answer. strip answer \<noteq> []) ?answers")
      case False
      with m c Inr qc
      have "session st' = session st1" by (auto simp: display_def Let_def)
      with ok1 show ?thesis by (simp add: Let_def)
    next
      case True
      obtain r2 st2 where p: "plan_step ?topic questions ?answers cid st1 = (r2, st2)"
        by (cases "plan_step ?topic questions ?answers cid st1")
      from plan_step_keeps [OF p] ok1 have ok2: "session_ok (session st2)"
        by (auto intro: session_ok_fields)
      show ?thesis
      proof (cases r2)
        case (Inl e)
        with m c \<open>r1 = Inr qc\<close> qc True p have "st' = st2"
          by (simp add: Let_def)
        with ok2 show ?thesis by (simp add: Let_def)
      next
        case (Inr pg)
        obtain plan gid where pg: "pg = (plan, gid)" by (cases pg)
        obtain r3 st3 where s: "show_plan plan st2 = (r3, st3)" by (cases "show_plan plan st2")
        from show_plan_keeps [OF s] ok2 have ok3: "session_ok (session st3)" by (simp add: Let_def)
        show ?thesis
        proof (cases r3)
          case (Inl e)
          with m c \<open>r1 = Inr qc\<close> qc True p \<open>r2 = Inr pg\<close> pg s have "st' = st3"
            by (simp add: Let_def)
          with ok3 show ?thesis by (simp add: Let_def)
        next
          case (Inr gq)
          obtain goal queries where gq: "gq = (goal, queries)" by (cases gq)
          show ?thesis
          proof (cases "start_research inp \<or> get_research_started (session st3)")
            case False
            with m c \<open>r1 = Inr qc\<close> qc True p \<open>r2 = Inr pg\<close> pg s Inr gq
            have "st' = st3" by (simp add: Let_def)
            with ok3 show ?thesis by (simp add: Let_def)
          next
            case True
            with m c \<open>r1 = Inr qc\<close> qc \<open>list_all (\<lambda>answer. strip answer \<noteq> []) ?answers\<close>
              p \<open>r2 = Inr pg\<close> pg s Inr gq
            have "research inp ?topic goal queries gid st3 = (out, st')"
              by (simp add: Let_def)
            with ok3 show ?thesis by (rule research_ok)
          qed
        qed
      qed
    qed
  qed
qed

lemma runs_ok: "session_ok (session st) \<Longrightarrow> session_ok (session (runs trace st))"
proof (induction trace arbitrary: st)
  case Nil
  then show ?case by simp
next
  case (Cons a trace)
  obtain inp replies where a: "a = (inp, replies)" by (cases a)
  let ?st = "st\<lparr>world := (world st)\<lparr>pending := replies\<rparr>, shown := []\<rparr>"
  have "session_ok (session ?st)" using Cons.prems by simp
  then have "session_ok (session (snd (main inp ?st)))"
    using main_ok [of ?st inp "fst (main inp ?st)" "snd (main inp ?st)"] by simp
  then have "session_ok (session (runs trace (snd (main inp ?st))))" by (rule Cons.IH)
  with a show ?case by simp
qed

lemma initial_ok: "session_ok (session initial)"
  by (simp add: initial_def session_ok_def empty_session_def get_collected_def
      get_iteration_count_def max_iterations_def)

lemma research_at_cap:
  assumes "max_iterations \<le> get_iteration_count (session st)"
  shows "research inp topic goal queries gid st =
          (Returned,
           st\<lparr>session := (session st)\<lparr>research_started := Some True\<rparr>,
              shown := shown st @ UiWarning ''Reached maximum iteration limit for safety.'' #
                (if get_collected (session st) = [] then []
                 else UiSummary (length (get_collected (session st)))
                        (get_iteration_count (session st)) #
                      map (\<lambda>(i, r). UiResult (Suc i) (query r) (preview 500 (research_output r)))
                        (enumerate 0 (get_collected (session st))))\<rparr>)"
  using assms
  by (simp add: research_def Let_def summary_phase_def display_def get_iteration_count_def
      get_collected_def)

declare lex.simps [simp del]

lemma scanstring_plain:
  "\<forall>c\<in>set s. plain c \<Longrightarrow> scanstring (s @ dquote # rest) = Inr (s, rest)"
  by (induction s) (auto simp: plain_def cons_char_def)

lemma lex_json_string:
  "\<forall>c\<in>set s. plain c \<Longrightarrow>
   lex (json_string s @ rest) = cons_token (TValue (JString s)) (lex rest)"
proof -
  assume "\<forall>c\<in>set s. plain c"
  then have "scanstring (s @ dquote # rest) = Inr (s, rest)" by (rule scanstring_plain)
  moreover have "\<not> is_json_space dquote" "punctuation dquote = None"
    by (simp_all add: is_json_space_def punctuation_def dquote_def)
  ultimately show ?thesis by (simp add: json_string_def lex.simps)
qed

lemma lex_punctuation:
  "punctuation c = Some t \<Longrightarrow> lex (c # cs) = cons_token t (lex cs)"
  by (auto simp: lex.simps punctuation_def is_json_space_def split: if_splits)

lemma lex_commas:
  "\<forall>q\<in>set qs. \<forall>c\<in>set q. plain c \<Longrightarrow> lex rest = Inr ts \<Longrightarrow>
   lex (commas (map json_string qs) @ rest) = Inr (elements qs @ ts)"
proof (induction qs rule: elements.induct)
  case 1
  then show ?case by simp
next
  case (2 q)
  then show ?case by (simp add: lex_json_string cons_token_def)
next
  case (3 q v va)
  then have "lex (commas (map json_string (v # va)) @ rest) = Inr (elements (v # va) @ ts)"
    by simp
  moreover have "punctuation CHR '','' = Some TComma" by (simp add: punctuation_def)
  ultimately show ?case
    using "3.prems"(1)
    by (simp add: lex_json_string lex_punctuation cons_token_def)
qed

lemma lex_plan_text:
  assumes "\<forall>c\<in>set g. plain c" and "\<forall>q\<in>set qs. \<forall>c\<in>set q. plain c"
  shows "lex (plan_text g qs) =
     Inr ([TLBrace, TValue (JString ''goal''), TColon, TValue (JString g), TComma,
           TValue (JString ''queries''), TColon, TLBracket] @ elements qs @ [TRBracket, TRBrace])"
proof -
  have e: "lex '']}'' = Inr [TRBracket, TRBrace]"
    by code_simp
  have 1: "lex (commas (map json_string qs) @ '']}'') = Inr (elements qs @ [TRBracket, TRBrace])"
    using assms(2) e by (rule lex_commas)
  have p: "\<forall>c\<in>set ''queries''. plain c" "\<forall>c\<in>set ''goal''. plain c"
    by (simp_all add: plain_def dquote_def backslash_def)
  have 2: "lex (CHR '':'' # CHR ''['' # commas (map json_string qs) @ '']}'')
      = Inr ([TColon, TLBracket] @ elements qs @ [TRBracket, TRBrace])"
    using 1 by (simp add: lex_punctuation punctuation_def cons_token_def)
  have 3: "lex (CHR '','' # json_string ''queries'' @ CHR '':'' # CHR ''['' #
                commas (map json_string qs) @ '']}'')
      = Inr ([TComma, TValue (JString ''queries''), TColon, TLBracket] @ elements qs
             @ [TRBracket, TRBrace])"
    using 2 by (simp add: lex_punctuation punctuation_def lex_json_string [OF p(1)] cons_token_def)
  have 4: "lex (CHR '':'' # json_string g @ CHR '','' # json_string ''queries'' @ CHR '':'' #
                CHR ''['' # commas (map json_string qs) @ '']}'')
      = Inr ([TColon, TValue (JString g), TComma, TValue (JString ''queries''), TColon, TLBracket]
             @ elements qs @ [TRBracket, TRBrace])"
    using 3 by (simp add: lex_punctuation punctuation_def lex_json_string [OF assms(1)] cons_token_def)
  show ?thesis
    unfolding plan_text_def
    using 4 by (simp add: lex_punctuation punctuation_def lex_json_string [OF p(2)] cons_token_def)
qed

lemma parse_elements:
  "parse Separator (ArrayFrame acc # st)
     (concat (map (\<lambda>q. [TComma, TValue (JString q)]) qs) @ ts)
   = parse Separator (ArrayFrame (acc @ map JString qs) # st) ts"
  by (induction qs arbitrary: acc) simp_all

lemma elements_Cons:
  "elements (q # qs) = TValue (JString q) # concat (map (\<lambda>q. [TComma, TValue (JString q)]) qs)"
  by (induction qs arbitrary: q) simp_all

lemma parse_array:
  "parse ValueOrEnd (ArrayFrame [] # st) (elements qs @ TRBracket # ts)
   = (case put_value (JArray (map JString qs)) st of
        None \<Rightarrow> None | Some (ex, st') \<Rightarrow> parse ex st' ts)"
proof (cases qs)
  case Nil
  then show ?thesis by simp
next
  case (Cons q qs')
  have "parse ValueOrEnd (ArrayFrame [] # st) (elements (q # qs') @ TRBracket # ts)
      = parse Separator (ArrayFrame [JString q] # st)
          (concat (map (\<lambda>q. [TComma, TValue (JString q)]) qs') @ TRBracket # ts)"
    by (simp add: elements_Cons)
  also have "\<dots> = parse Separator (ArrayFrame ([JString q] @ map JString qs') # st) (TRBracket # ts)"
    by (rule parse_elements)
  finally show ?thesis using Cons by simp
qed

lemma json_loads_plan_text:
  assumes "\<forall>c\<in>set g. plain c" and "\<forall>q\<in>set qs. \<forall>c\<in>set q. plain c"
  shows "json_loads (plan_text g qs) =
           Inr (JObject [(''goal'', JString g), (''queries'', JArray (map JString qs))])"
proof -
  have "parse Value []
          ([TLBrace, TValue (JString ''goal''), TColon, TValue (JString g), TComma,
            TValue (JString ''queries''), TColon, TLBracket] @ elements qs @ [TRBracket, TRBrace])
        = parse ValueOrEnd
            [ArrayFrame [], ObjectFrame [(''goal'', JString g)] (Some ''queries'')]
            (elements qs @ TRBracket # [TRBrace])"
    by simp
  also have "\<dots> = Some (JObject [(''goal'', JString g), (''queries'', JArray (map JString qs))])"
    by (simp add: parse_array)
  finally show ?thesis
    using assms by (simp add: json_loads_def lex_plan_text)
qed

subsection \<open>Completeness evaluation\<close>

text \<open>
  C3. When the service answers the evaluation call with a message whose first content
  block is the text \<open>t\<close>, \<open>evaluate\<close> returns true if and only if the lowercased
  \<open>t\<close> contains \<open>yes\<close> somewhere, and the call is the only one made. The reply
  \<open>Yes.\<close> gives true and the reply \<open>No, insufficient.\<close> gives false.
\<close>

theorem evaluate_substring_yes:
  assumes "pending w = Reply r # rest" and "output0_text r = Inr t"
  shows "evaluate goal coll w =
           (Inr (\<exists>ps ss. lower t = ps @ ''yes'' @ ss),
            \<lparr>pending = rest, sent = sent w @ [EvaluateRequest goal coll]\<rparr>)
         \<and> says_yes ''Yes.'' \<and> \<not> says_yes ''No, insufficient.''"
proof -
  have "evaluate goal coll w =
          (Inr (says_yes t), \<lparr>pending = rest, sent = sent w @ [EvaluateRequest goal coll]\<rparr>)"
    using assms by (simp add: evaluate_def create_reply)
  moreover have "says_yes t = (\<exists>ps ss. lower t = ps @ ''yes'' @ ss)"
    by (simp add: says_yes_def py_in_iff)
  moreover have "says_yes ''Yes.''"
    by code_simp
  moreover have "\<not> says_yes ''No, insufficient.''"
    by code_simp
  ultimately show ?thesis by simp
qed

theorem evaluate_substring_yes_witness:
  "evaluate (JString ''G'') []
     \<lparr>pending = [Reply \<lparr>response_id = ''r1'',
                          output_items = [OutputMessage ''m1'' [OutputText ''Yes.'']]\<rparr>],
      sent = []\<rparr>
   = (Inr True, \<lparr>pending = [], sent = [EvaluateRequest (JString ''G'') []]\<rparr>)"
proof -
  have h1: "pending \<lparr>pending = [Reply \<lparr>response_id = ''r1'',
                          output_items = [OutputMessage ''m1'' [OutputText ''Yes.'']]\<rparr>],
      sent = []\<rparr> = Reply \<lparr>response_id = ''r1'',
                          output_items = [OutputMessage ''m1'' [OutputText ''Yes.'']]\<rparr> # []"
    by simp
  have h2: "output0_text \<lparr>response_id = ''r1'',
                          output_items = [OutputMessage ''m1'' [OutputText ''Yes.'']]\<rparr> = Inr ''Yes.''"
    by (simp add: output0_text_def content0_text_def py_index_def)
  have "says_yes ''Yes.''"
    using evaluate_substring_yes [OF h1 h2] by blast
  then have h3: "\<exists>ps ss. lower ''Yes.'' = ps @ ''yes'' @ ss"
    by (simp add: says_yes_def py_in_iff)
  show ?thesis
    using evaluate_substring_yes [OF h1 h2, of "JString ''G''" "[]"] h3 by simp
qed

subsection \<open>Question generation\<close>

text \<open>
  C6, as stated, fails for a line of white space only: the reply with the five
  non-empty lines \<open>a\<close>, one blank, \<open>b\<close>, \<open>c\<close> and \<open>d\<close> gives four questions.
\<close>

theorem questions_blank_line_counterexample:
  "get_clarifying_questions ''t''
     \<lparr>pending = [Reply \<lparr>response_id = ''r'', output_items =
         [OutputMessage ''m'' [OutputText (join_lines [''a'', '' '', ''b'', ''c'', ''d''])]]\<rparr>],
      sent = []\<rparr>
   = (Inr ([''a'', ''b'', ''c'', ''d''], ''r''),
      \<lparr>pending = [], sent = [ClarifyRequest ''t'']\<rparr>)"
  by code_simp

text \<open>
  C6, amended. When the reply text consists of lines separated by line feeds and every
  line has a character that \<open>strip\<close> keeps, \<open>get_clarifying_questions\<close> returns the
  stripped lines in their order: as many questions as lines (five for five lines, and
  any other number when the reply has another number of lines), none of them empty.
\<close>

theorem get_clarifying_questions_lines:
  assumes "pending w = Reply r # rest" and "output0_text r = Inr (join_lines ls)"
    and "\<forall>l\<in>set ls. newline \<notin> set l \<and> strip l \<noteq> []"
  shows "get_clarifying_questions topic w =
           (Inr (map strip ls, response_id r),
            \<lparr>pending = rest, sent = sent w @ [ClarifyRequest topic]\<rparr>)
         \<and> length (map strip ls) = length ls
         \<and> [] \<notin> set (map strip ls)"
proof -
  have "filter (\<lambda>q. strip q \<noteq> []) ls = ls"
    using assms(3) by (simp add: filter_id_conv)
  with assms(3) have "questions_of (join_lines ls) = map strip ls"
    by (simp add: questions_of_join_lines)
  with assms(1,2) have "get_clarifying_questions topic w =
           (Inr (map strip ls, response_id r),
            \<lparr>pending = rest, sent = sent w @ [ClarifyRequest topic]\<rparr>)"
    by (simp add: get_clarifying_questions_def create_reply)
  moreover have "[] \<notin> set (map strip ls)"
    using assms(3) by auto
  ultimately show ?thesis by simp
qed

theorem get_clarifying_questions_lines_witness:
  "get_clarifying_questions ''t''
     \<lparr>pending = [Reply \<lparr>response_id = ''r'', output_items =
         [OutputMessage ''m'' [OutputText
            (join_lines [''1. Why?'', ''2. Who?  '', '' 3. When?'', ''4. Where?'', ''5. How?''])]]\<rparr>],
      sent = []\<rparr>
   = (Inr ([''1. Why?'', ''2. Who?'', ''3. When?'', ''4. Where?'', ''5. How?''], ''r''),
      \<lparr>pending = [], sent = [ClarifyRequest ''t'']\<rparr>)"
proof -
  let ?ls = "[''1. Why?'', ''2. Who?  '', '' 3. When?'', ''4. Where?'', ''5. How?'']"
  let ?r = "\<lparr>response_id = ''r'', output_items = [OutputMessage ''m'' [OutputText (join_lines ?ls)]]\<rparr>"
  have h1: "pending \<lparr>pending = [Reply ?r], sent = []\<rparr> = Reply ?r # []"
    by simp
  have h2: "output0_text ?r = Inr (join_lines ?ls)"
    by (simp add: output0_text_def content0_text_def py_index_def)
  have h3: "\<forall>l\<in>set ?ls. newline \<notin> set l \<and> strip l \<noteq> []"
    by code_simp
  have "map strip ?ls = [''1. Why?'', ''2. Who?'', ''3. When?'', ''4. Where?'', ''5. How?'']"
    by code_simp
  with get_clarifying_questions_lines [OF h1 h2 h3, of "''t''"] show ?thesis by simp
qed

subsection \<open>The iteration cap\<close>

text \<open>
  C1. After any sequence of runs of a session the iteration counter lies between 0 and
  5. A search phase that completes stores the counter it was entered with plus one.
  The research block calls the service only when the counter is below 5; at the cap it
  returns normally, calls nothing, changes nothing in the session but the started
  flag, and shows the warning and, when something was collected, the summary with
  every collected result.
\<close>

theorem iteration_count_never_exceeds_cap:
  "0 \<le> get_iteration_count (session (runs trace initial))
   \<and> get_iteration_count (session (runs trace initial)) \<le> 5
   \<and> (\<forall>cq n st coll1 st1. search_phase cq n st = (Inr coll1, st1) \<longrightarrow>
          iteration_count (session st1) = Some (n + 1))
   \<and> (\<forall>st out st'. research inp topic goal queries gid st = (out, st')
          \<and> sent (world st') \<noteq> sent (world st) \<longrightarrow> get_iteration_count (session st) < 5)
   \<and> (\<forall>st. 5 \<le> get_iteration_count (session st) \<longrightarrow>
          research inp topic goal queries gid st =
            (Returned,
             st\<lparr>session := (session st)\<lparr>research_started := Some True\<rparr>,
                shown := shown st @ UiWarning ''Reached maximum iteration limit for safety.'' #
                  (if get_collected (session st) = [] then []
                   else UiSummary (length (get_collected (session st)))
                          (get_iteration_count (session st)) #
                        map (\<lambda>(i, r). UiResult (Suc i) (query r) (preview 500 (research_output r)))
                          (enumerate 0 (get_collected (session st))))\<rparr>))"
proof -
  have "session_ok (session (runs trace initial))"
    using initial_ok by (rule runs_ok)
  then have a: "0 \<le> get_iteration_count (session (runs trace initial))
      \<and> get_iteration_count (session (runs trace initial)) \<le> 5"
    by (simp add: session_ok_def max_iterations_def)
  have b: "\<forall>cq n st coll1 st1. search_phase cq n st = (Inr coll1, st1) \<longrightarrow>
          iteration_count (session st1) = Some (n + 1)"
    by (auto simp: search_phase_def Let_def split: sum.splits prod.splits)
  have d: "\<forall>st. 5 \<le> get_iteration_count (session st) \<longrightarrow>
          research inp topic goal queries gid st =
            (Returned,
             st\<lparr>session := (session st)\<lparr>research_started := Some True\<rparr>,
                shown := shown st @ UiWarning ''Reached maximum iteration limit for safety.'' #
                  (if get_collected (session st) = [] then []
                   else UiSummary (length (get_collected (session st)))
                          (get_iteration_count (session st)) #
                        map (\<lambda>(i, r). UiResult (Suc i) (query r) (preview 500 (research_output r)))
                          (enumerate 0 (get_collected (session st))))\<rparr>)"
    using research_at_cap [where inp = inp and topic = topic and goal = goal
        and queries = queries and gid = gid]
    by (simp add: max_iterations_def)
  have c: "\<forall>st out st'. research inp topic goal queries gid st = (out, st')
          \<and> sent (world st') \<noteq> sent (world st) \<longrightarrow> get_iteration_count (session st) < 5"
  proof (intro allI impI)
    fix st out st'
    assume h: "research inp topic goal queries gid st = (out, st')
          \<and> sent (world st') \<noteq> sent (world st)"
    show "get_iteration_count (session st) < 5"
    proof (rule ccontr)
      assume "\<not> get_iteration_count (session st) < 5"
      then have "5 \<le> get_iteration_count (session st)" by simp
      with d h have "world st' = world st" by auto
      with h show False by simp
    qed
  qed
  from a b c d show ?thesis by blast
qed

theorem iteration_count_never_exceeds_cap_witness:
  "get_iteration_count (session (runs five_passes initial)) = 5
   \<and> research example_inputs ''cats'' (JString ''G'') (JArray [JString ''a'']) ''r2''
        (runs five_passes initial)
      = (Returned,
         (runs five_passes initial)\<lparr>shown := shown (runs five_passes initial) @
            [UiWarning ''Reached maximum iteration limit for safety.'',
             UiSummary 1 5, UiResult 1 ''a'' ''Cats purr.'']\<rparr>)"
proof -
  have n: "get_iteration_count (session (runs five_passes initial)) = 5"
    by code_simp
  have c: "get_collected (session (runs five_passes initial))
             = [\<lparr>query = ''a'', resp_id = ''m1'', research_output = ''Cats purr.''\<rparr>]"
    by code_simp
  have s: "research_started (session (runs five_passes initial)) = Some True"
    by code_simp
  have "5 \<le> get_iteration_count (session (runs five_passes initial))"
    using n by simp
  with iteration_count_never_exceeds_cap
    [of five_passes example_inputs "''cats''" "JString ''G''" "JArray [JString ''a'']" "''r2''"]
  have "research example_inputs ''cats'' (JString ''G'') (JArray [JString ''a'']) ''r2''
          (runs five_passes initial) =
            (Returned,
             (runs five_passes initial)\<lparr>session := (session (runs five_passes initial))\<lparr>research_started := Some True\<rparr>,
                shown := shown (runs five_passes initial) @ UiWarning ''Reached maximum iteration limit for safety.'' #
                  (if get_collected (session (runs five_passes initial)) = [] then []
                   else UiSummary (length (get_collected (session (runs five_passes initial))))
                          (get_iteration_count (session (runs five_passes initial))) #
                        map (\<lambda>(i, r). UiResult (Suc i) (query r) (preview 500 (research_output r)))
                          (enumerate 0 (get_collected (session (runs five_passes initial)))))\<rparr>)"
    by blast
  moreover have "(session (runs five_passes initial))\<lparr>research_started := Some True\<rparr>
      = session (runs five_passes initial)"
    using s by (cases "session (runs five_passes initial)") simp
  ultimately show ?thesis
    using n c by (simp add: preview_def)
qed

subsection \<open>De-duplication by query text\<close>

text \<open>
  C2. After any sequence of runs no two collected results have the same query. The
  search loop only appends to the collected list and keeps its queries distinct; when
  it completes, it has sent exactly one search request for each result it appended;
  and a query that is already in the list is skipped: the loop goes on as if the query
  were not in the list of queries.
\<close>

theorem collected_queries_distinct:
  "distinct (map query (get_collected (session (runs trace initial))))
   \<and> (\<forall>qs coll w sh r coll' w' sh'.
         distinct (map query coll) \<and> search_loop qs coll w sh = (r, coll', w', sh') \<longrightarrow>
         distinct (map query coll') \<and> prefix coll coll')
   \<and> (\<forall>qs coll w sh u coll' w' sh'.
         search_loop qs coll w sh = (Inr u, coll', w', sh') \<longrightarrow>
         sent w' = sent w @ map (\<lambda>res. SearchRequest (query res)) (drop (length coll) coll'))
   \<and> (\<forall>q qs coll w sh. list_ex (\<lambda>item. query item = q) coll \<longrightarrow>
         search_loop (JString q # qs) coll w sh = search_loop qs coll w sh)"
proof -
  have "session_ok (session (runs trace initial))"
    using initial_ok by (rule runs_ok)
  then have a: "distinct (map query (get_collected (session (runs trace initial))))"
    by (simp add: session_ok_def)
  have b: "\<forall>qs coll w sh r coll' w' sh'.
         distinct (map query coll) \<and> search_loop qs coll w sh = (r, coll', w', sh') \<longrightarrow>
         distinct (map query coll') \<and> prefix coll coll'"
    by (auto intro: search_loop_distinct search_loop_appends)
  have c: "\<forall>qs coll w sh u coll' w' sh'.
         search_loop qs coll w sh = (Inr u, coll', w', sh') \<longrightarrow>
         sent w' = sent w @ map (\<lambda>res. SearchRequest (query res)) (drop (length coll) coll')"
    by (auto intro: search_loop_sent)
  have d: "\<forall>q qs coll w sh. list_ex (\<lambda>item. query item = q) coll \<longrightarrow>
         search_loop (JString q # qs) coll w sh = search_loop qs coll w sh"
    by simp
  from a b c d show ?thesis by (intro conjI)
qed

theorem collected_queries_distinct_witness:
  "search_loop [JString ''a'', JString ''b'']
     [\<lparr>query = ''a'', resp_id = ''m1'', research_output = ''Cats purr.''\<rparr>]
     \<lparr>pending = [search_reply ''m2'' ''Dogs bark.''], sent = []\<rparr> []
   = (Inr (),
      [\<lparr>query = ''a'', resp_id = ''m1'', research_output = ''Cats purr.''\<rparr>,
       \<lparr>query = ''b'', resp_id = ''m2'', research_output = ''Dogs bark.''\<rparr>],
      \<lparr>pending = [], sent = [SearchRequest ''b'']\<rparr>,
      [UiSearchOutput ''b'' ''Dogs bark.''])"
proof -
  have h: "list_ex (\<lambda>item. query item = ''a'')
             [\<lparr>query = ''a'', resp_id = ''m1'', research_output = ''Cats purr.''\<rparr>]"
    by simp
  have "search_loop (JString ''a'' # [JString ''b''])
     [\<lparr>query = ''a'', resp_id = ''m1'', research_output = ''Cats purr.''\<rparr>]
     \<lparr>pending = [search_reply ''m2'' ''Dogs bark.''], sent = []\<rparr> []
     = search_loop [JString ''b'']
     [\<lparr>query = ''a'', resp_id = ''m1'', research_output = ''Cats purr.''\<rparr>]
     \<lparr>pending = [search_reply ''m2'' ''Dogs bark.''], sent = []\<rparr> []"
    using collected_queries_distinct [of "[]"] h by blast
  moreover have "search_loop [JString ''b'']
     [\<lparr>query = ''a'', resp_id = ''m1'', research_output = ''Cats purr.''\<rparr>]
     \<lparr>pending = [search_reply ''m2'' ''Dogs bark.''], sent = []\<rparr> []
     = (Inr (),
      [\<lparr>query = ''a'', resp_id = ''m1'', research_output = ''Cats purr.''\<rparr>,
       \<lparr>query = ''b'', resp_id = ''m2'', research_output = ''Dogs bark.''\<rparr>],
      \<lparr>pending = [], sent = [SearchRequest ''b'']\<rparr>,
      [UiSearchOutput ''b'' ''Dogs bark.''])"
    by code_simp
  ultimately show ?thesis by simp
qed

subsection \<open>Malformed JSON\<close>





subsection \<open>Search execution\<close>

text \<open>
  C8. \<open>run_search\<close> makes one call and reads the second output item only: with
  fewer than two output items, or with a second item whose content is empty, it raises
  \<open>IndexError\<close>; with a second item that is a message starting with a text, it
  returns that text and the identifier of that item. No other call follows, and the
  search loop, the search phase and the research block pass the exception on.
\<close>

theorem run_search_second_item:
  assumes "pending w = Reply r # rest"
  shows "snd (run_search q w) = \<lparr>pending = rest, sent = sent w @ [SearchRequest q]\<rparr>
       \<and> (length (output_items r) < 2 \<longrightarrow> fst (run_search q w) = Inl IndexError)
       \<and> (\<forall>i. 2 \<le> length (output_items r) \<and> output_items r ! 1 = OutputMessage i []
              \<longrightarrow> fst (run_search q w) = Inl IndexError)
       \<and> (\<forall>i t bs. 2 \<le> length (output_items r)
              \<and> output_items r ! 1 = OutputMessage i (OutputText t # bs)
              \<longrightarrow> fst (run_search q w) = Inr \<lparr>query = q, resp_id = i, research_output = t\<rparr>)
       \<and> (\<forall>e. fst (run_search q w) = Inl e \<and> \<not> list_ex (\<lambda>item. query item = q) coll
              \<longrightarrow> search_loop (JString q # qs) coll w sh
                   = (Inl e, coll, \<lparr>pending = rest, sent = sent w @ [SearchRequest q]\<rparr>, sh))
       \<and> (\<forall>cq n st xs e coll' w' sh'. py_iter cq = Inr xs
              \<and> search_loop xs (get_collected (session st)) (world st)
                    (shown st @ [UiIteration (n + 1)]) = (Inl e, coll', w', sh')
              \<longrightarrow> fst (search_phase cq n st) = Inl e)
       \<and> (\<forall>inp topic goal queries gid st e st1.
              get_iteration_count (session st) < max_iterations
              \<and> search_phase (get_current_queries (session st) queries)
                    (get_iteration_count (session st))
                    (st\<lparr>session := (session st)\<lparr>research_started := Some True\<rparr>\<rparr>) = (Inl e, st1)
              \<longrightarrow> research inp topic goal queries gid st = (Raised e, st1))"
proof -
  have a: "\<forall>cq n st xs e coll' w' sh'. py_iter cq = Inr xs
              \<and> search_loop xs (get_collected (session st)) (world st)
                    (shown st @ [UiIteration (n + 1)]) = (Inl e, coll', w', sh')
              \<longrightarrow> fst (search_phase cq n st) = Inl e"
    by (simp add: search_phase_def Let_def display_def)
  have b: "\<forall>inp topic goal queries gid st e st1.
              get_iteration_count (session st) < max_iterations
              \<and> search_phase (get_current_queries (session st) queries)
                    (get_iteration_count (session st))
                    (st\<lparr>session := (session st)\<lparr>research_started := Some True\<rparr>\<rparr>) = (Inl e, st1)
              \<longrightarrow> research inp topic goal queries gid st = (Raised e, st1)"
    by (simp add: research_def Let_def get_iteration_count_def get_current_queries_def)
  have c: "snd (run_search q w) = \<lparr>pending = rest, sent = sent w @ [SearchRequest q]\<rparr>
       \<and> (length (output_items r) < 2 \<longrightarrow> fst (run_search q w) = Inl IndexError)
       \<and> (\<forall>i. 2 \<le> length (output_items r) \<and> output_items r ! 1 = OutputMessage i []
              \<longrightarrow> fst (run_search q w) = Inl IndexError)
       \<and> (\<forall>i t bs. 2 \<le> length (output_items r)
              \<and> output_items r ! 1 = OutputMessage i (OutputText t # bs)
              \<longrightarrow> fst (run_search q w) = Inr \<lparr>query = q, resp_id = i, research_output = t\<rparr>)
       \<and> (\<forall>e. fst (run_search q w) = Inl e \<and> \<not> list_ex (\<lambda>item. query item = q) coll
              \<longrightarrow> search_loop (JString q # qs) coll w sh
                   = (Inl e, coll, \<lparr>pending = rest, sent = sent w @ [SearchRequest q]\<rparr>, sh))"
    using assms by (auto simp: run_search_reply search_result_cases)
  from a b c show ?thesis by (intro conjI) blast+
qed

theorem run_search_second_item_witness:
  "run_search ''a'' \<lparr>pending = [text_reply ''r1'' ''Cats purr.''], sent = []\<rparr>
     = (Inl IndexError, \<lparr>pending = [], sent = [SearchRequest ''a'']\<rparr>)
   \<and> run_search ''a'' \<lparr>pending = [search_reply ''m1'' ''Cats purr.''], sent = []\<rparr>
     = (Inr \<lparr>query = ''a'', resp_id = ''m1'', research_output = ''Cats purr.''\<rparr>,
        \<lparr>pending = [], sent = [SearchRequest ''a'']\<rparr>)"
proof -
  let ?r1 = "\<lparr>response_id = ''r1'', output_items = [OutputMessage ''r1'' [OutputText ''Cats purr.'']]\<rparr>"
  let ?r2 = "\<lparr>response_id = ''m1'', output_items =
               [WebSearchCall ''ws'', OutputMessage ''m1'' [OutputText ''Cats purr.'']]\<rparr>"
  have p1: "pending \<lparr>pending = [text_reply ''r1'' ''Cats purr.''], sent = []\<rparr> = Reply ?r1 # []"
    by (simp add: text_reply_def)
  have p2: "pending \<lparr>pending = [search_reply ''m1'' ''Cats purr.''], sent = []\<rparr> = Reply ?r2 # []"
    by (simp add: search_reply_def)
  have "length (output_items ?r1) < 2" by simp
  with run_search_second_item [OF p1, of "''a''" "[]" "[]" "[]"]
  have a: "snd (run_search ''a'' \<lparr>pending = [text_reply ''r1'' ''Cats purr.''], sent = []\<rparr>)
             = \<lparr>pending = [], sent = [SearchRequest ''a'']\<rparr>
           \<and> fst (run_search ''a'' \<lparr>pending = [text_reply ''r1'' ''Cats purr.''], sent = []\<rparr>)
             = Inl IndexError"
    by simp
  have "2 \<le> length (output_items ?r2)
        \<and> output_items ?r2 ! 1 = OutputMessage ''m1'' (OutputText ''Cats purr.'' # [])"
    by simp
  with run_search_second_item [OF p2, of "''a''" "[]" "[]" "[]"]
  have b: "snd (run_search ''a'' \<lparr>pending = [search_reply ''m1'' ''Cats purr.''], sent = []\<rparr>)
             = \<lparr>pending = [], sent = [SearchRequest ''a'']\<rparr>
           \<and> fst (run_search ''a'' \<lparr>pending = [search_reply ''m1'' ''Cats purr.''], sent = []\<rparr>)
             = Inr \<lparr>query = ''a'', resp_id = ''m1'', research_output = ''Cats purr.''\<rparr>"
    by simp
  from a b show ?thesis by (simp add: prod_eq_iff)
qed

text \<open>
  C9. Whenever \<open>run_search\<close> returns, the result has the three fields \<open>query\<close>,
  \<open>resp_id\<close> and \<open>research_output\<close>, its query is the query that was passed in,
  the other two fields come from the second output item of the reply, and the check of
  the search loop finds the query in a list that holds the result.
\<close>

theorem run_search_record:
  assumes "run_search q w = (Inr res, w')"
  shows "query res = q
       \<and> res = \<lparr>query = q, resp_id = resp_id res, research_output = research_output res\<rparr>
       \<and> (\<exists>r rest. pending w = Reply r # rest \<and> 2 \<le> length (output_items r)
              \<and> resp_id res = item_id (output_items r ! 1)
              \<and> content0_text (output_items r ! 1) = Inr (research_output res))
       \<and> list_ex (\<lambda>item. query item = q) (coll @ [res])"
proof -
  from assms obtain r rest where p: "pending w = Reply r # rest"
    by (auto simp: run_search_def create_def split: list.splits reply.splits)
  with assms have sr: "search_result q r = Inr res"
    by (simp add: run_search_reply)
  then have "query res = q"
    by (auto simp: search_result_def split: sum.splits)
  moreover from sr have "2 \<le> length (output_items r)
      \<and> resp_id res = item_id (output_items r ! 1)
      \<and> content0_text (output_items r ! 1) = Inr (research_output res)"
    by (auto simp: search_result_def py_index_def split: sum.splits if_splits)
  ultimately show ?thesis using p by auto
qed

theorem run_search_record_witness:
  "run_search ''a'' \<lparr>pending = [search_reply ''m1'' ''Cats purr.''], sent = []\<rparr>
     = (Inr \<lparr>query = ''a'', resp_id = ''m1'', research_output = ''Cats purr.''\<rparr>,
        \<lparr>pending = [], sent = [SearchRequest ''a'']\<rparr>)
   \<and> query \<lparr>query = ''a'', resp_id = ''m1'', research_output = ''Cats purr.''\<rparr> = ''a''
   \<and> list_ex (\<lambda>item. query item = ''a'')
        ([] @ [\<lparr>query = ''a'', resp_id = ''m1'', research_output = ''Cats purr.''\<rparr>])"
proof -
  have h: "run_search ''a'' \<lparr>pending = [search_reply ''m1'' ''Cats purr.''], sent = []\<rparr>
     = (Inr \<lparr>query = ''a'', resp_id = ''m1'', research_output = ''Cats purr.''\<rparr>,
        \<lparr>pending = [], sent = [SearchRequest ''a'']\<rparr>)"
    by code_simp
  from run_search_record [OF h, of "[]"] h show ?thesis by blast
qed

subsection \<open>Plan generation\<close>

text \<open>
  C7. The plan reply is decoded by \<open>json_loads\<close> and nothing else: when the
  decoding fails, \<open>get_goal_and_queries\<close> fails with the same error. When the reply
  is the object with a goal \<open>g\<close> and the queries \<open>qs\<close> (strings of plain
  characters), the plan is that object, the goal read from it is \<open>g\<close> and the
  queries read from it are \<open>qs\<close>, in the same order and number. The reply of the
  claim, with the goal \<open>G\<close> and the queries \<open>a\<close> to \<open>e\<close>, is the witness.
\<close>

theorem plan_reply_strict_decode:
  assumes "pending w = Reply r # rest" and "output0_text r = Inr t"
  shows "((\<forall>c\<in>set g. plain c) \<and> (\<forall>q\<in>set qs. \<forall>c\<in>set q. plain c) \<and> t = plan_text g qs \<longrightarrow>
            get_goal_and_queries topic questions answers cid w =
              (Inr (JObject [(''goal'', JString g), (''queries'', JArray (map JString qs))],
                    response_id r),
               \<lparr>pending = rest, sent = sent w @ [PlanRequest topic questions answers cid]\<rparr>)
          \<and> show_plan (JObject [(''goal'', JString g), (''queries'', JArray (map JString qs))]) st =
              (Inr (JString g, JArray (map JString qs)),
               st\<lparr>shown := shown st @ UiGoal (JString g) #
                    map (\<lambda>(i, q). UiQuery (Suc i) q) (enumerate 0 (map JString qs))\<rparr>))
       \<and> (\<forall>e. json_loads t = Inl e \<longrightarrow>
            get_goal_and_queries topic questions answers cid w =
              (Inl e, \<lparr>pending = rest, sent = sent w @ [PlanRequest topic questions answers cid]\<rparr>))"
proof -
  have s: "show_plan (JObject [(''goal'', JString g), (''queries'', JArray (map JString qs))]) st =
              (Inr (JString g, JArray (map JString qs)),
               st\<lparr>shown := shown st @ UiGoal (JString g) #
                    map (\<lambda>(i, q). UiQuery (Suc i) q) (enumerate 0 (map JString qs))\<rparr>)"
    by (simp add: show_plan_def py_getitem_def py_iter_def)
  show ?thesis
    using assms s by (auto simp: get_goal_and_queries_reply json_loads_plan_text)
qed

theorem plan_reply_strict_decode_witness:
  "get_goal_and_queries ''cats'' [''1. Why cats?''] [''pets''] ''r1''
     \<lparr>pending = [text_reply ''r2'' ''{\"goal\":\"G\",\"queries\":[\"a\",\"b\",\"c\",\"d\",\"e\"]}''],
      sent = []\<rparr>
   = (Inr (JObject [(''goal'', JString ''G''),
                    (''queries'', JArray [JString ''a'', JString ''b'', JString ''c'',
                                          JString ''d'', JString ''e''])], ''r2''),
      \<lparr>pending = [], sent = [PlanRequest ''cats'' [''1. Why cats?''] [''pets''] ''r1'']\<rparr>)
   \<and> show_plan (JObject [(''goal'', JString ''G''),
                    (''queries'', JArray [JString ''a'', JString ''b'', JString ''c'',
                                          JString ''d'', JString ''e''])]) initial
     = (Inr (JString ''G'',
             JArray [JString ''a'', JString ''b'', JString ''c'', JString ''d'', JString ''e'']),
        initial\<lparr>shown := [UiGoal (JString ''G''), UiQuery 1 (JString ''a''),
                            UiQuery 2 (JString ''b''), UiQuery 3 (JString ''c''),
                            UiQuery 4 (JString ''d''), UiQuery 5 (JString ''e'')]\<rparr>)"
proof -
  let ?t = "''{\"goal\":\"G\",\"queries\":[\"a\",\"b\",\"c\",\"d\",\"e\"]}''"
  let ?r = "\<lparr>response_id = ''r2'', output_items = [OutputMessage ''r2'' [OutputText ?t]]\<rparr>"
  let ?qs = "[''a'', ''b'', ''c'', ''d'', ''e'']"
  have h1: "pending \<lparr>pending = [text_reply ''r2'' ?t], sent = []\<rparr> = Reply ?r # []"
    by (simp add: text_reply_def)
  have h2: "output0_text ?r = Inr ?t"
    by (simp add: output0_text_def content0_text_def py_index_def)
  have p: "(\<forall>c\<in>set ''G''. plain c) \<and> (\<forall>q\<in>set ?qs. \<forall>c\<in>set q. plain c)"
    by (simp add: plain_def dquote_def backslash_def)
  have t: "?t = plan_text ''G'' ?qs"
    by code_simp
  have e: "map (\<lambda>(i, q). UiQuery (Suc i) q) (enumerate 0 (map JString ?qs))
             = [UiQuery 1 (JString ''a''), UiQuery 2 (JString ''b''), UiQuery 3 (JString ''c''),
                UiQuery 4 (JString ''d''), UiQuery 5 (JString ''e'')]"
    by simp
  have i: "shown initial = []" by (simp add: initial_def)
  from plan_reply_strict_decode [OF h1 h2, of "''G''" ?qs "''cats''" "[''1. Why cats?'']"
      "[''pets'']" "''r1''" initial] p t
  have "get_goal_and_queries ''cats'' [''1. Why cats?''] [''pets''] ''r1''
          \<lparr>pending = [text_reply ''r2'' ?t], sent = []\<rparr> =
              (Inr (JObject [(''goal'', JString ''G''), (''queries'', JArray (map JString ?qs))],
                    response_id ?r),
               \<lparr>pending = [], sent = sent \<lparr>pending = [text_reply ''r2'' ?t], sent = []\<rparr> @
                  [PlanRequest ''cats'' [''1. Why cats?''] [''pets''] ''r1'']\<rparr>)
          \<and> show_plan (JObject [(''goal'', JString ''G''), (''queries'', JArray (map JString ?qs))]) initial =
              (Inr (JString ''G'', JArray (map JString ?qs)),
               initial\<lparr>shown := shown initial @ UiGoal (JString ''G'') #
                    map (\<lambda>(i, q). UiQuery (Suc i) q) (enumerate 0 (map JString ?qs))\<rparr>)"
    by blast
  then show ?thesis using e i by simp
qed

subsection \<open>Reset after the report\<close>

text \<open>
  C10. When a research pass below the cap completes its searches, the evaluation
  answers yes and the synthesis returns a report, the session reads afterwards as not
  started, with nothing collected and with the counter 0 (the three keys are set to
  \<open>False\<close>, \<open>[]\<close> and \<open>0\<close>, or deleted with every other key when the button
  for a new research is pressed). The download is offered under the name
  \<open>research_report_\<close>, the topic, \<open>.md\<close>, where only the blanks of the topic
  are replaced, each by an underscore; every other character stays.
\<close>

theorem satisfied_research_resets_session:
  assumes "get_iteration_count (session st0) < max_iterations"
    and "search_phase (get_current_queries (session st0) queries) (get_iteration_count (session st0))
           (st0\<lparr>session := (session st0)\<lparr>research_started := Some True\<rparr>\<rparr>) = (Inr coll1, st1)"
    and "evaluate goal coll1 (world st1) = (Inr True, w1)"
    and "synthesize goal coll1 w1 = (Inr final_report, w2)"
    and "research inp topic goal queries gid st0 = (out, st')"
  shows "\<not> get_research_started (session st')
       \<and> get_collected (session st') = []
       \<and> get_iteration_count (session st') = 0
       \<and> (\<not> start_new_research inp \<longrightarrow>
             research_started (session st') = Some False
           \<and> collected (session st') = Some []
           \<and> iteration_count (session st') = Some 0)
       \<and> shown st' = shown st1 @ [UiSuccess ''Research goal satisfied! Generating final report...'',
                       UiReport final_report, UiDownload (file_name topic) final_report]
       \<and> file_name topic = ''research_report_'' @ map (\<lambda>c. if c = CHR '' '' then CHR ''_'' else c) topic @ ''.md''
       \<and> length (file_name topic) = length topic + 19
       \<and> (\<forall>i < length topic. file_name topic ! (16 + i) =
             (if topic ! i = CHR '' '' then CHR ''_'' else topic ! i))"
proof -
  have "research inp topic goal queries gid st0 = report_phase inp topic goal coll1 (st1\<lparr>world := w1\<rparr>)"
    using assms(1-3) by (rule research_satisfied)
  moreover have "synthesize goal coll1 (world (st1\<lparr>world := w1\<rparr>)) = (Inr final_report, w2)"
    using assms(4) by simp
  ultimately have r: "(out, st') =
     (if start_new_research inp then Rerun else Returned,
      \<lparr>session = (if start_new_research inp then empty_session
                   else (session (st1\<lparr>world := w1\<rparr>))\<lparr>research_started := Some False, collected := Some [],
                                       iteration_count := Some 0\<rparr>),
       world = w2,
       shown = shown (st1\<lparr>world := w1\<rparr>) @ [UiSuccess ''Research goal satisfied! Generating final report...'',
                           UiReport final_report, UiDownload (file_name topic) final_report]\<rparr>)"
    using assms(5) by (simp add: report_phase_done)
  have f: "file_name topic = ''research_report_'' @ map (\<lambda>c. if c = CHR '' '' then CHR ''_'' else c) topic @ ''.md''"
    by (simp add: file_name_def replace_def)
  have n: "\<forall>i < length topic. file_name topic ! (16 + i) =
             (if topic ! i = CHR '' '' then CHR ''_'' else topic ! i)"
  proof (intro allI impI)
    fix i assume "i < length topic"
    have "file_name topic ! (16 + i) = (map (\<lambda>c. if c = CHR '' '' then CHR ''_'' else c) topic @ ''.md'') ! i"
      unfolding f by (simp add: nth_append)
    with \<open>i < length topic\<close> show "file_name topic ! (16 + i) =
             (if topic ! i = CHR '' '' then CHR ''_'' else topic ! i)"
      by (simp add: nth_append)
  qed
  from r show ?thesis
    using f n
    by (auto simp: get_research_started_def get_collected_def get_iteration_count_def
        empty_session_def file_name_def replace_def)
qed

theorem satisfied_research_resets_session_witness:
  "research_started (session (snd (research example_inputs ''black cats/dogs'' (JString ''G'')
       (JArray [JString ''a'']) ''r2'' searching))) = Some False
   \<and> collected (session (snd (research example_inputs ''black cats/dogs'' (JString ''G'')
       (JArray [JString ''a'']) ''r2'' searching))) = Some []
   \<and> iteration_count (session (snd (research example_inputs ''black cats/dogs'' (JString ''G'')
       (JArray [JString ''a'']) ''r2'' searching))) = Some 0
   \<and> file_name ''black cats/dogs'' = ''research_report_black_cats/dogs.md''"
proof -
  let ?goal = "JString ''G''"
  let ?queries = "JArray [JString ''a'']"
  let ?res = "\<lparr>query = ''a'', resp_id = ''m1'', research_output = ''Cats purr.''\<rparr>"
  let ?sp = "search_phase (get_current_queries (session searching) ?queries)
               (get_iteration_count (session searching))
               (searching\<lparr>session := (session searching)\<lparr>research_started := Some True\<rparr>\<rparr>)"
  let ?ev = "evaluate ?goal [?res] (world (snd ?sp))"
  let ?sy = "synthesize ?goal [?res] (snd ?ev)"
  let ?R = "research example_inputs ''black cats/dogs'' ?goal ?queries ''r2'' searching"
  have h1: "get_iteration_count (session searching) < max_iterations"
    by code_simp
  have h2: "?sp = (Inr [?res], snd ?sp)"
    by code_simp
  have h3: "?ev = (Inr True, snd ?ev)"
    by code_simp
  have h4: "?sy = (Inr ''Cats: a report'', snd ?sy)"
    by code_simp
  have h5: "?R = (fst ?R, snd ?R)"
    by simp
  have n: "\<not> start_new_research example_inputs"
    by (simp add: example_inputs_def)
  have f: "''research_report_'' @ map (\<lambda>c. if c = CHR '' '' then CHR ''_'' else c) ''black cats/dogs'' @ ''.md''
             = ''research_report_black_cats/dogs.md''"
    by simp
  from satisfied_research_resets_session [OF h1 h2 h3 h4 h5] n f
  show ?thesis by simp
qed

end
